theory Spec2Isabelle
  imports Complex_Main "HOL-Library.Sublist"
begin

section \<open>The inference gateway of app.py\<close>

text \<open>
  The development follows \<^verbatim>\<open>src/app.py\<close>: the model directory
  (\<^verbatim>\<open>get_supported_models\<close>), the fallback invoker (\<^verbatim>\<open>call_gemini\<close>) and the
  JSON extraction that the routes \<^verbatim>\<open>scan_food\<close>, \<^verbatim>\<open>diet_plan\<close> and \<^verbatim>\<open>chat\<close>
  perform on the gateway's answer.

  Python text is a list of characters; a character stands for a code point below 256.
  Everything the code obtains from outside (the answers of \<^verbatim>\<open>requests.get\<close> and
  \<^verbatim>\<open>requests.post\<close>, the result of \<^verbatim>\<open>json.loads\<close>, Python's \<^verbatim>\<open>str\<close> of a parsed
  body) is an argument of the model; an exception is a value of \<open>py_exc\<close>.
\<close>

subsection \<open>Parsed JSON and the Python operations the code applies to it\<close>

text \<open>
  What \<^verbatim>\<open>r.json()\<close> and \<^verbatim>\<open>json.loads\<close> return. Besides finite numbers they
  accept the literals \<^verbatim>\<open>NaN\<close>, \<^verbatim>\<open>Infinity\<close> and \<^verbatim>\<open>-Infinity\<close>.
\<close>

datatype json =
    JNull
  | JBool bool
  | JNum real
  | JNaN
  | JInfinity
  | JMinusInfinity
  | JStr string
  | JArr "json list"
  | JObj "(string \<times> json) list"

datatype py_exc =
    KeyError json
  | IndexError
  | TypeError
  | AttributeError
  | JSONDecodeError string
  | Exception string

definition and_then :: "py_exc + 'a \<Rightarrow> ('a \<Rightarrow> py_exc + 'b) \<Rightarrow> py_exc + 'b" where
  "and_then x f = (case x of Inl e \<Rightarrow> Inl e | Inr v \<Rightarrow> f v)"

text \<open>\<^verbatim>\<open>needle in haystack\<close> on two strings.\<close>

fun py_contains :: "string \<Rightarrow> string \<Rightarrow> bool" where
  "py_contains needle [] = (needle = [])"
| "py_contains needle (c # cs) = (prefix needle (c # cs) \<or> py_contains needle cs)"

text \<open>\<^verbatim>\<open>str.lower()\<close>, on code points below 256.\<close>

definition lower_char :: "char \<Rightarrow> char" where
  "lower_char c =
     (let n = (of_char c :: nat)
      in if (65 \<le> n \<and> n \<le> 90) \<or> (192 \<le> n \<and> n \<le> 222 \<and> n \<noteq> 215)
         then char_of (n + 32) else c)"

definition py_lower :: "string \<Rightarrow> string" where
  "py_lower s = map lower_char s"

text \<open>\<^verbatim>\<open>s.split('/')[-1]\<close>: what follows the last slash.\<close>

definition last_segment :: "string \<Rightarrow> string" where
  "last_segment s = rev (takeWhile (\<lambda>c. c \<noteq> CHR ''/'') (rev s))"

text \<open>\<^verbatim>\<open>x.get(key, default)\<close>: only a dict has the method.\<close>

fun dict_get :: "json \<Rightarrow> string \<Rightarrow> json \<Rightarrow> py_exc + json" where
  "dict_get (JObj kvs) key dflt = Inr (case map_of kvs key of None \<Rightarrow> dflt | Some v \<Rightarrow> v)"
| "dict_get _ key dflt = Inl AttributeError"

text \<open>\<^verbatim>\<open>key in x\<close> for a string \<open>key\<close>.\<close>

fun py_in :: "string \<Rightarrow> json \<Rightarrow> py_exc + bool" where
  "py_in key (JObj kvs) = Inr (map_of kvs key \<noteq> None)"
| "py_in key (JArr xs) = Inr (JStr key \<in> set xs)"
| "py_in key (JStr s) = Inr (py_contains key s)"
| "py_in key _ = Inl TypeError"

text \<open>\<^verbatim>\<open>x[key]\<close> for a string \<open>key\<close>, and \<^verbatim>\<open>x[0]\<close>.\<close>

fun getitem :: "json \<Rightarrow> string \<Rightarrow> py_exc + json" where
  "getitem (JObj kvs) key =
     (case map_of kvs key of None \<Rightarrow> Inl (KeyError (JStr key)) | Some v \<Rightarrow> Inr v)"
| "getitem _ key = Inl TypeError"

fun getitem0 :: "json \<Rightarrow> py_exc + json" where
  "getitem0 (JArr []) = Inl IndexError"
| "getitem0 (JArr (x # xs)) = Inr x"
| "getitem0 (JStr []) = Inl IndexError"
| "getitem0 (JStr (c # cs)) = Inr (JStr [c])"
| "getitem0 (JObj kvs) = Inl (KeyError (JNum 0))"
| "getitem0 _ = Inl TypeError"

text \<open>Truth value of a parsed body, as \<^verbatim>\<open>not x\<close> tests it.\<close>

fun truthy :: "json \<Rightarrow> bool" where
  "truthy JNull = False"
| "truthy (JBool b) = b"
| "truthy (JNum r) = (r \<noteq> 0)"
| "truthy JNaN = True"
| "truthy JInfinity = True"
| "truthy JMinusInfinity = True"
| "truthy (JStr s) = (s \<noteq> [])"
| "truthy (JArr xs) = (xs \<noteq> [])"
| "truthy (JObj kvs) = (kvs \<noteq> [])"

text \<open>\<^verbatim>\<open>for m in x\<close>: a list gives its elements, a dict its keys, a string its characters.\<close>

fun py_iter :: "json \<Rightarrow> py_exc + json list" where
  "py_iter (JArr xs) = Inr xs"
| "py_iter (JObj kvs) = Inr (map (\<lambda>kv. JStr (fst kv)) kvs)"
| "py_iter (JStr s) = Inr (map (\<lambda>c. JStr [c]) s)"
| "py_iter _ = Inl TypeError"

text \<open>\<^verbatim>\<open>x.lower()\<close> and \<^verbatim>\<open>x.split('/')[-1]\<close>: only a string has the methods.\<close>

fun str_lower :: "json \<Rightarrow> py_exc + string" where
  "str_lower (JStr s) = Inr (py_lower s)"
| "str_lower _ = Inl AttributeError"

fun split_last :: "json \<Rightarrow> py_exc + string" where
  "split_last (JStr s) = Inr (last_segment s)"
| "split_last _ = Inl AttributeError"

subsection \<open>What the network answers\<close>

text \<open>
  A response as the code reads it: \<^verbatim>\<open>r.status_code\<close>,
  \<^verbatim>\<open>r.headers.get('content-type')\<close>, \<^verbatim>\<open>r.json()\<close> (\<open>Inl m\<close> when it raises an
  exception whose \<^verbatim>\<open>str\<close> is \<open>m\<close>) and \<^verbatim>\<open>r.text\<close>. A call of \<^verbatim>\<open>requests\<close>
  either raises (\<open>Raises m\<close>, with \<^verbatim>\<open>str(e) = m\<close>) or returns a response.
\<close>

record response =
  status_code :: int
  content_type :: "string option"
  r_json :: "string + json"
  r_text :: string

datatype reply = Raises string | Responds response

subsection \<open>Model directory\<close>

definition AVAILABLE_MODELS :: "string list" where
  "AVAILABLE_MODELS =
     [''gemini-1.5-flash'',
      ''gemini-1.5-pro'',
      ''gemini-2.0-flash'',
      ''gemini-1.5-flash-latest'',
      ''gemini-1.5-pro-latest'',
      ''gemini-1.0-pro'']"

text \<open>\<^verbatim>\<open>m['name'].lower()\<close>.\<close>

definition name_lower :: "json \<Rightarrow> py_exc + string" where
  "name_lower m = and_then (getitem m ''name'') str_lower"

text \<open>
  The condition of the list comprehension. \<^verbatim>\<open>and\<close> evaluates left to right and stops
  at the first false operand, so an entry without \<^verbatim>\<open>generateContent\<close> is dropped
  before its name is read.
\<close>

definition text_capable :: "json \<Rightarrow> py_exc + bool" where
  "text_capable m =
     and_then (dict_get m ''supportedGenerationMethods'' (JArr [])) (\<lambda>methods.
     and_then (py_in ''generateContent'' methods) (\<lambda>gen.
       if \<not> gen then Inr False
       else and_then (name_lower m) (\<lambda>n1.
         if py_contains ''tts'' n1 then Inr False
         else and_then (name_lower m) (\<lambda>n2.
           if py_contains ''embed'' n2 then Inr False
           else and_then (name_lower m) (\<lambda>n3.
             Inr (\<not> py_contains ''aqa'' n3))))))"

text \<open>The list comprehension: the first exception ends it.\<close>

fun comprehension :: "json list \<Rightarrow> py_exc + string list" where
  "comprehension [] = Inr []"
| "comprehension (m # ms) =
     and_then (text_capable m) (\<lambda>keep.
       if keep
       then and_then (and_then (getitem m ''name'') split_last) (\<lambda>n.
            and_then (comprehension ms) (\<lambda>rest. Inr (n # rest)))
       else comprehension ms)"

text \<open>The body of the \<^verbatim>\<open>if r.status_code == 200\<close> branch.\<close>

definition discovered :: "response \<Rightarrow> py_exc + string list" where
  "discovered r =
     and_then (case r_json r of Inl m \<Rightarrow> Inl (JSONDecodeError m) | Inr j \<Rightarrow> Inr j) (\<lambda>body.
     and_then (dict_get body ''models'' (JArr [])) (\<lambda>all_models.
     and_then (py_iter all_models) comprehension))"

text \<open>
  \<^verbatim>\<open>get_supported_models\<close>, given what \<^verbatim>\<open>requests.get\<close> does. Every exception
  inside the \<^verbatim>\<open>try\<close> falls through to \<^verbatim>\<open>return AVAILABLE_MODELS\<close>.
\<close>

definition get_supported_models :: "reply \<Rightarrow> string list" where
  "get_supported_models listing =
     (case listing of
        Raises m \<Rightarrow> AVAILABLE_MODELS
      | Responds r \<Rightarrow>
          if status_code r = 200
          then (case discovered r of Inr models \<Rightarrow> models | Inl e \<Rightarrow> AVAILABLE_MODELS)
          else AVAILABLE_MODELS)"

subsection \<open>Fallback invoker\<close>

text \<open>\<^verbatim>\<open>str\<close> of an integer, for the status code in the error message.\<close>

fun digits :: "nat \<Rightarrow> string" where
  "digits n =
     (if n < 10 then [''0123456789'' ! n]
      else digits (n div 10) @ [''0123456789'' ! (n mod 10)])"

declare digits.simps [simp del]

definition str_int :: "int \<Rightarrow> string" where
  "str_int i = (if i < 0 then CHR ''-'' # digits (nat (- i)) else digits (nat i))"

text \<open>
  \<^verbatim>\<open>error_data = r.json() if r.headers.get('content-type') == 'application/json'
  else r.text\<close>, already formatted into the message. \<open>str_json\<close> is Python's
  \<^verbatim>\<open>str\<close> of a parsed body. \<open>Inl m\<close>: \<^verbatim>\<open>r.json()\<close> raised.
\<close>

definition error_data :: "(json \<Rightarrow> string) \<Rightarrow> response \<Rightarrow> string + string" where
  "error_data str_json r =
     (if content_type r = Some ''application/json''
      then (case r_json r of Inl m \<Rightarrow> Inl m | Inr j \<Rightarrow> Inr (str_json j))
      else Inr (r_text r))"

definition api_error :: "int \<Rightarrow> string \<Rightarrow> string \<Rightarrow> string" where
  "api_error status model err =
     ''API '' @ str_int status @ '' ('' @ model @ ''): '' @ err"

text \<open>The \<^verbatim>\<open>raise\<close> after the loop.\<close>

definition all_failed :: "string \<Rightarrow> py_exc" where
  "all_failed last_error = Exception (''All AI attempts failed. Final error: '' @ last_error)"

text \<open>
  One pass through the body of \<^verbatim>\<open>for model in models_to_try\<close>, given what
  \<^verbatim>\<open>requests.post\<close> did: the body returns from the function (\<open>Return\<close>), leaves
  the loop with \<^verbatim>\<open>break\<close> (\<open>Break\<close>) or goes on to the next model (\<open>Next\<close>); the
  last two carry the value the pass assigned to \<^verbatim>\<open>last_error\<close>.
\<close>

datatype step = Return json | Break string | Next string

definition attempt :: "(json \<Rightarrow> string) \<Rightarrow> string \<Rightarrow> reply \<Rightarrow> step" where
  "attempt str_json model posted =
     (case posted of
        Raises m \<Rightarrow> Next m
      | Responds r \<Rightarrow>
          if status_code r = 200
          then (case r_json r of Inr body \<Rightarrow> Return body | Inl m \<Rightarrow> Next m)
          else (case error_data str_json r of
                  Inl m \<Rightarrow> Next m
                | Inr err \<Rightarrow>
                    if status_code r = 400 \<or> status_code r = 403
                    then Break (api_error (status_code r) model err)
                    else Next (api_error (status_code r) model err)))"

text \<open>
  The loop and the \<^verbatim>\<open>raise\<close> after it. \<open>post k model\<close> is what
  \<^verbatim>\<open>requests.post\<close> does when it is the \<open>k\<close>-th request of this invocation and is
  sent to \<open>model\<close>. \<open>tried\<close> lists the models already posted to, in order; it is
  returned with the result.
\<close>

fun try_models ::
  "(json \<Rightarrow> string) \<Rightarrow> (nat \<Rightarrow> string \<Rightarrow> reply) \<Rightarrow> string list \<Rightarrow> string \<Rightarrow> string list
     \<Rightarrow> (py_exc + json) \<times> string list" where
  "try_models str_json post [] last_error tried = (Inl (all_failed last_error), tried)"
| "try_models str_json post (model # rest) last_error tried =
     (case attempt str_json model (post (length tried) model) of
        Return body \<Rightarrow> (Inr body, tried @ [model])
      | Break e \<Rightarrow> (Inl (all_failed e), tried @ [model])
      | Next e \<Rightarrow> try_models str_json post rest e (tried @ [model]))"

definition call_gemini ::
  "(json \<Rightarrow> string) \<Rightarrow> reply \<Rightarrow> (nat \<Rightarrow> string \<Rightarrow> reply) \<Rightarrow> (py_exc + json) \<times> string list" where
  "call_gemini str_json listing post =
     try_models str_json post (get_supported_models listing) ''No models attempted'' []"

subsection \<open>Reading the model's text\<close>

text \<open>Whitespace as \<^verbatim>\<open>\s\<close> and \<^verbatim>\<open>str.strip()\<close> see it, on code points below 256.\<close>

definition py_isspace :: "char \<Rightarrow> bool" where
  "py_isspace c = ((of_char c :: nat) \<in> {9, 10, 11, 12, 13, 28, 29, 30, 31, 32, 133, 160})"

definition py_strip :: "string \<Rightarrow> string" where
  "py_strip s = rev (dropWhile py_isspace (rev (dropWhile py_isspace s)))"

text \<open>
  \<^verbatim>\<open>re.sub(r'```json\s*|\s*```', '', text)\<close>: from left to right, at each position the
  first alternative is tried, then the second; what matches is deleted and the scan goes
  on behind it. \<^verbatim>\<open>\s*\<close> is greedy, and giving whitespace back never helps, since a
  backtick is not whitespace.
\<close>

function re_sub_fences :: "string \<Rightarrow> string" where
  "re_sub_fences [] = []"
| "re_sub_fences (c # cs) =
     (if prefix ''```json'' (c # cs)
      then re_sub_fences (dropWhile py_isspace (drop 7 (c # cs)))
      else if prefix ''```'' (dropWhile py_isspace (c # cs))
      then re_sub_fences (drop 3 (dropWhile py_isspace (c # cs)))
      else c # re_sub_fences cs)"
  by pat_completeness auto
termination
proof (relation "measure length")
  show "wf (measure length)" by simp
next
  fix c :: char and cs :: string
  have "length (dropWhile py_isspace (drop 7 (c # cs))) \<le> length (drop 7 (c # cs))"
    by (rule length_dropWhile_le)
  then show "(dropWhile py_isspace (drop 7 (c # cs)), c # cs) \<in> measure length"
    by simp
next
  fix c :: char and cs :: string
  have "length (dropWhile py_isspace (c # cs)) \<le> length (c # cs)"
    by (rule length_dropWhile_le)
  then show "(drop 3 (dropWhile py_isspace (c # cs)), c # cs) \<in> measure length"
    by simp
next
  fix c :: char and cs :: string
  show "(cs, c # cs) \<in> measure length" by simp
qed

text \<open>
  \<^verbatim>\<open>clean_text = re.sub(...).strip()\<close>; \<^verbatim>\<open>re.sub\<close> raises \<^verbatim>\<open>TypeError\<close> on
  anything but a string.
\<close>

fun clean_text :: "json \<Rightarrow> py_exc + string" where
  "clean_text (JStr text) = Inr (py_strip (re_sub_fences text))"
| "clean_text _ = Inl TypeError"

text \<open>
  \<^verbatim>\<open>re.search(r"\{.*\}", clean_text, re.DOTALL)\<close>, as the backtracking matcher runs
  it. \<open>dot_star_brace\<close> matches \<^verbatim>\<open>.*\}\<close> at the start of its argument: the greedy
  star first takes one more character and gives it back only when the rest fails.
  \<open>re_search\<close> tries the start positions from left to right and returns
  \<^verbatim>\<open>match.group()\<close>.
\<close>

fun dot_star_brace :: "string \<Rightarrow> string option" where
  "dot_star_brace [] = None"
| "dot_star_brace (c # cs) =
     (case dot_star_brace cs of
        Some m \<Rightarrow> Some (c # m)
      | None \<Rightarrow> if c = CHR ''}'' then Some [c] else None)"

fun re_search :: "string \<Rightarrow> string option" where
  "re_search [] = None"
| "re_search (c # cs) =
     (if c = CHR ''{''
      then (case dot_star_brace cs of Some m \<Rightarrow> Some (c # m) | None \<Rightarrow> re_search cs)
      else re_search cs)"

subsection \<open>The three callers of the gateway\<close>

text \<open>
  What a route returns: \<^verbatim>\<open>jsonify(body), status\<close>, or from the handler of
  \<^verbatim>\<open>except Exception as e\<close> the body \<^verbatim>\<open>{"error": prefix + str(e)}\<close>, kept as the
  prefix and the exception.
\<close>

datatype flask_reply =
    Jsonify json int
  | Jsonify_error string py_exc int

text \<open>\<^verbatim>\<open>"candidates" not in data or not data["candidates"]\<close>.\<close>

definition no_candidates :: "json \<Rightarrow> py_exc + bool" where
  "no_candidates data =
     and_then (py_in ''candidates'' data) (\<lambda>present.
       if \<not> present then Inr True
       else and_then (getitem data ''candidates'') (\<lambda>cands. Inr (\<not> truthy cands)))"

text \<open>\<^verbatim>\<open>data["candidates"][0]["content"]["parts"][0]["text"]\<close>.\<close>

definition first_text :: "json \<Rightarrow> py_exc + json" where
  "first_text data =
     and_then (getitem data ''candidates'') (\<lambda>cands.
     and_then (getitem0 cands) (\<lambda>cand.
     and_then (getitem cand ''content'') (\<lambda>content.
     and_then (getitem content ''parts'') (\<lambda>parts.
     and_then (getitem0 parts) (\<lambda>part.
     getitem part ''text'')))))"

definition error_body :: "string \<Rightarrow> json" where
  "error_body msg = JObj [(''error'', JStr msg)]"

definition error_raw_body :: "string \<Rightarrow> json \<Rightarrow> json" where
  "error_raw_body msg raw = JObj [(''error'', JStr msg), (''raw'', raw)]"

text \<open>
  \<^verbatim>\<open>scan_food\<close> from the call of the gateway on (lines 246 to 267). \<open>gateway\<close> is
  what \<^verbatim>\<open>call_gemini(payload)\<close> did, \<open>loads\<close> is \<^verbatim>\<open>json.loads\<close>. Only
  \<^verbatim>\<open>json.JSONDecodeError\<close> is caught by the inner \<^verbatim>\<open>try\<close>.
\<close>

definition scan_food_try :: "(string \<Rightarrow> py_exc + json) \<Rightarrow> py_exc + json \<Rightarrow> py_exc + flask_reply" where
  "scan_food_try loads gateway =
     and_then gateway (\<lambda>data.
     and_then (no_candidates data) (\<lambda>none.
       if none
       then Inr (Jsonify (error_body ''No results from AI. Safety filters might be active.'') 500)
       else and_then (first_text data) (\<lambda>text.
            and_then (clean_text text) (\<lambda>cleaned.
              case re_search cleaned of
                Some matched \<Rightarrow>
                  (case loads matched of
                     Inr json_data \<Rightarrow> Inr (Jsonify json_data 200)
                   | Inl (JSONDecodeError m) \<Rightarrow>
                       Inr (Jsonify (error_raw_body ''AI returned invalid JSON structure'' text) 500)
                   | Inl e \<Rightarrow> Inl e)
              | None \<Rightarrow>
                  Inr (Jsonify (error_raw_body ''AI response did not contain JSON'' text) 500)))))"

definition scan_food :: "(string \<Rightarrow> py_exc + json) \<Rightarrow> py_exc + json \<Rightarrow> flask_reply" where
  "scan_food loads gateway =
     (case scan_food_try loads gateway of
        Inr reply \<Rightarrow> reply
      | Inl e \<Rightarrow> Jsonify_error ''Server Error: '' e 500)"

text \<open>\<^verbatim>\<open>diet_plan\<close> from the call of the gateway on (lines 292 to 307).\<close>

definition diet_plan_try :: "(string \<Rightarrow> py_exc + json) \<Rightarrow> py_exc + json \<Rightarrow> py_exc + flask_reply" where
  "diet_plan_try loads gateway =
     and_then gateway (\<lambda>res_data.
     and_then (no_candidates res_data) (\<lambda>none.
       if none
       then Inr (Jsonify (error_body ''AI could not generate a plan.'') 500)
       else and_then (first_text res_data) (\<lambda>text.
            and_then (clean_text text) (\<lambda>cleaned.
              case re_search cleaned of
                Some matched \<Rightarrow> and_then (loads matched) (\<lambda>plan. Inr (Jsonify plan 200))
              | None \<Rightarrow>
                  Inr (Jsonify (error_raw_body ''AI response did not contain JSON'' text) 500)))))"

definition diet_plan :: "(string \<Rightarrow> py_exc + json) \<Rightarrow> py_exc + json \<Rightarrow> flask_reply" where
  "diet_plan loads gateway =
     (case diet_plan_try loads gateway of
        Inr reply \<Rightarrow> reply
      | Inl e \<Rightarrow> Jsonify_error ''AI Plan failed: '' e 500)"

text \<open>\<^verbatim>\<open>chat\<close> from the call of the gateway on (lines 508 to 518).\<close>

definition chat_try :: "py_exc + json \<Rightarrow> py_exc + flask_reply" where
  "chat_try gateway =
     and_then gateway (\<lambda>res_data.
     and_then (no_candidates res_data) (\<lambda>none.
       if none
       then Inr (Jsonify (error_body ''Bella is unable to respond right now.'') 500)
       else and_then (first_text res_data) (\<lambda>reply.
            Inr (Jsonify (JObj [(''reply'', reply)]) 200))))"

definition chat :: "py_exc + json \<Rightarrow> flask_reply" where
  "chat gateway =
     (case chat_try gateway of
        Inr reply \<Rightarrow> reply
      | Inl e \<Rightarrow> Jsonify_error ''Bella Error: '' e 500)"

section \<open>The specification's wording\<close>

subsection \<open>Which listed models are included\<close>

text \<open>
  A listed entry has a name and may have an array of supported generation methods. An
  entry is included when the array contains \<^verbatim>\<open>generateContent\<close> and its name matches
  none of the markers, compared without regard to case. The output names a model by the
  part of its name after the last slash.
\<close>

fun name_of :: "json \<Rightarrow> string option" where
  "name_of (JObj kvs) = (case map_of kvs ''name'' of Some (JStr n) \<Rightarrow> Some n | _ \<Rightarrow> None)"
| "name_of _ = None"

fun methods_of :: "json \<Rightarrow> json list option" where
  "methods_of (JObj kvs) =
     (case map_of kvs ''supportedGenerationMethods'' of
        None \<Rightarrow> Some [] | Some (JArr xs) \<Rightarrow> Some xs | _ \<Rightarrow> None)"
| "methods_of _ = None"

definition well_formed_entry :: "json \<Rightarrow> bool" where
  "well_formed_entry m = (name_of m \<noteq> None \<and> methods_of m \<noteq> None)"

definition contains_ci :: "string \<Rightarrow> string \<Rightarrow> bool" where
  "contains_ci marker s = py_contains (py_lower marker) (py_lower s)"

definition spec_included :: "json \<Rightarrow> bool" where
  "spec_included m =
     (JStr ''generateContent'' \<in> set (the (methods_of m)) \<and>
      \<not> (contains_ci ''tts'' (the (name_of m)) \<or> contains_ci ''embed'' (the (name_of m)) \<or>
         contains_ci ''aqa'' (the (name_of m))))"

definition spec_discover :: "json list \<Rightarrow> string list" where
  "spec_discover ms = map (\<lambda>m. last_segment (the (name_of m))) (filter spec_included ms)"

subsection \<open>The span handed to the parser\<close>

text \<open>
  The greedy span: from the first \<^verbatim>\<open>{\<close> of the text to its last \<^verbatim>\<open>}\<close>, when the
  last \<^verbatim>\<open>}\<close> comes after the first \<^verbatim>\<open>{\<close>. \<open>first_open\<close> is the index of the first
  \<^verbatim>\<open>{\<close> (the length of the text when there is none), \<open>last_close\<close> the index just
  after the last \<^verbatim>\<open>}\<close> (zero when there is none).
\<close>

definition first_open :: "string \<Rightarrow> nat" where
  "first_open s = length (takeWhile (\<lambda>c. c \<noteq> CHR ''{'') s)"

definition last_close :: "string \<Rightarrow> nat" where
  "last_close s = length s - length (takeWhile (\<lambda>c. c \<noteq> CHR ''}'') (rev s))"

definition greedy_span :: "string \<Rightarrow> string option" where
  "greedy_span s =
     (if first_open s < last_close s
      then Some (take (last_close s - first_open s) (drop (first_open s) s))
      else None)"

subsection \<open>The fence-stripped text\<close>

text \<open>
  A fence marker is \<^verbatim>\<open>```json\<close> with the whitespace that follows it, or
  \<^verbatim>\<open>```\<close> with the whitespace that precedes it. The text is read from the left: where
  a marker starts, the longest marker starting there is deleted, wherever in the text that
  is; every other character is kept.
\<close>

definition fence_marker :: "string \<Rightarrow> bool" where
  "fence_marker m =
     (\<exists>w. list_all py_isspace w \<and> (m = ''```json'' @ w \<or> m = w @ ''```''))"

definition longest_marker :: "string \<Rightarrow> string \<Rightarrow> bool" where
  "longest_marker m s =
     (fence_marker m \<and> prefix m s \<and>
      (\<forall>m'. fence_marker m' \<and> prefix m' s \<longrightarrow> length m' \<le> length m))"

definition no_marker :: "string \<Rightarrow> bool" where
  "no_marker s = (\<forall>m. fence_marker m \<longrightarrow> \<not> prefix m s)"

inductive fences_deleted :: "string \<Rightarrow> string \<Rightarrow> bool" where
  nothing_left: "fences_deleted [] []"
| delete_marker:
    "longest_marker m (m @ r) \<Longrightarrow> fences_deleted r t \<Longrightarrow> fences_deleted (m @ r) t"
| keep_char:
    "no_marker (c # r) \<Longrightarrow> fences_deleted r t \<Longrightarrow> fences_deleted (c # r) (c # t)"

subsection \<open>The first balanced object\<close>

text \<open>
  Brace matching as a JSON reader does it: braces inside a string literal do not count,
  and inside a literal a backslash escapes the next character. \<open>close_braces d cs\<close> is the
  shortest prefix of \<open>cs\<close> that closes \<open>d\<close> open braces. \<open>first_object\<close> is the first
  balanced \<^verbatim>\<open>{...}\<close> substring of a text; \<open>one_object m\<close> says that \<open>m\<close> as a whole
  is one such object.
\<close>

fun close_braces :: "nat \<Rightarrow> string \<Rightarrow> string option"
  and in_string :: "nat \<Rightarrow> string \<Rightarrow> string option"
  and escaped :: "nat \<Rightarrow> string \<Rightarrow> string option" where
  "close_braces d [] = None"
| "close_braces d (c # cs) =
     (if c = CHR 0x22 then map_option ((#) c) (in_string d cs)
      else if c = CHR ''{'' then map_option ((#) c) (close_braces (Suc d) cs)
      else if c = CHR ''}''
      then (if d \<le> 1 then Some [c] else map_option ((#) c) (close_braces (d - 1) cs))
      else map_option ((#) c) (close_braces d cs))"
| "in_string d [] = None"
| "in_string d (c # cs) =
     (if c = CHR 0x22 then map_option ((#) c) (close_braces d cs)
      else if c = CHR 0x5C then map_option ((#) c) (escaped d cs)
      else map_option ((#) c) (in_string d cs))"
| "escaped d [] = None"
| "escaped d (c # cs) = map_option ((#) c) (in_string d cs)"

fun first_object :: "string \<Rightarrow> string option" where
  "first_object [] = None"
| "first_object (c # cs) =
     (if c = CHR ''{''
      then (case close_braces 1 cs of Some m \<Rightarrow> Some (c # m) | None \<Rightarrow> first_object cs)
      else first_object cs)"

fun one_object :: "string \<Rightarrow> bool" where
  "one_object [] = False"
| "one_object (c # cs) = (c = CHR ''{'' \<and> close_braces 1 cs = Some cs)"

subsection \<open>Valid JSON\<close>

text \<open>A JSON text has no literal for a number that is not finite.\<close>

fun json_value :: "json \<Rightarrow> bool" where
  "json_value JNaN = False"
| "json_value JInfinity = False"
| "json_value JMinusInfinity = False"
| "json_value (JArr xs) = list_all json_value xs"
| "json_value (JObj kvs) = list_all (\<lambda>kv. json_value (snd kv)) kvs"
| "json_value _ = True"

section \<open>Canned answers for the examples\<close>

text \<open>
  \<open>canned rs\<close> answers the \<open>k\<close>-th request with the \<open>k\<close>-th element of \<open>rs\<close>;
  \<open>always r\<close> answers every request with \<open>r\<close>. \<open>fail\<close> is an error response with a
  plain-text body, \<open>unreadable\<close> one that announces JSON and whose body does not parse,
  \<open>success\<close> a 200 response with a parsed body, \<open>listing_of\<close> a 200 answer of the
  listing call.
\<close>

definition canned :: "reply list \<Rightarrow> nat \<Rightarrow> string \<Rightarrow> reply" where
  "canned rs k model = (if k < length rs then rs ! k else Raises ''no canned response left'')"

definition always :: "reply \<Rightarrow> nat \<Rightarrow> string \<Rightarrow> reply" where
  "always r k model = r"

definition fail :: "int \<Rightarrow> reply" where
  "fail status =
     Responds \<lparr>status_code = status, content_type = Some ''text/plain'',
       r_json = Inl ''Expecting value: line 1 column 1 (char 0)'', r_text = ''failed''\<rparr>"

definition success :: "json \<Rightarrow> reply" where
  "success body =
     Responds \<lparr>status_code = 200, content_type = Some ''application/json; charset=UTF-8'',
       r_json = Inr body, r_text = []\<rparr>"

definition unreadable :: "int \<Rightarrow> reply" where
  "unreadable status =
     Responds \<lparr>status_code = status, content_type = Some ''application/json'',
       r_json = Inl ''Expecting value: line 1 column 1 (char 0)'', r_text = ''<html>''\<rparr>"

definition entry :: "string \<Rightarrow> string list \<Rightarrow> json" where
  "entry n methods =
     JObj [(''name'', JStr n), (''version'', JStr ''001''),
           (''supportedGenerationMethods'', JArr (map JStr methods))]"

definition listing_of :: "json list \<Rightarrow> reply" where
  "listing_of entries =
     Responds \<lparr>status_code = 200, content_type = Some ''application/json; charset=UTF-8'',
       r_json = Inr (JObj [(''models'', JArr entries)]), r_text = []\<rparr>"

definition plain_str :: "json \<Rightarrow> string" where
  "plain_str j = ''<body>''"

text \<open>
  \<open>answer t\<close> is a body whose first candidate holds the text \<open>t\<close>. \<open>canned_loads\<close>
  parses the listed documents and rejects every other string with the given message.
\<close>

definition answer :: "string \<Rightarrow> json" where
  "answer t =
     JObj [(''candidates'',
            JArr [JObj [(''content'',
                        JObj [(''parts'', JArr [JObj [(''text'', JStr t)]]),
                              (''role'', JStr ''model'')])]])]"

definition canned_loads :: "(string \<times> json) list \<Rightarrow> string \<Rightarrow> string \<Rightarrow> py_exc + json" where
  "canned_loads known msg s =
     (case map_of known s of Some j \<Rightarrow> Inr j | None \<Rightarrow> Inl (JSONDecodeError msg))"

section \<open>Properties\<close>

lemmas ev = get_supported_models_def discovered_def and_then_def text_capable_def name_lower_def
  py_lower_def lower_char_def last_segment_def entry_def listing_of_def char_of_def bit_Suc_0_iff

lemmas ev2 = call_gemini_def attempt_def error_data_def api_error_def all_failed_def str_int_def
  digits.simps always_def canned_def fail_def success_def unreadable_def AVAILABLE_MODELS_def

subsection \<open>Model directory\<close>

lemma markers_lower:
  "py_lower ''tts'' = ''tts''" "py_lower ''embed'' = ''embed''" "py_lower ''aqa'' = ''aqa''"
  by (simp_all add: py_lower_def lower_char_def)

lemma text_capable_spec:
  assumes "well_formed_entry m"
  shows "text_capable m = Inr (spec_included m)"
proof -
  from assms obtain kvs n where m: "m = JObj kvs" and n: "map_of kvs ''name'' = Some (JStr n)"
    by (cases m) (auto simp: well_formed_entry_def split: option.splits json.splits)
  from assms m obtain xs where
    xs: "map_of kvs ''supportedGenerationMethods'' = None \<and> xs = [] \<or>
         map_of kvs ''supportedGenerationMethods'' = Some (JArr xs)"
    by (auto simp: well_formed_entry_def split: option.splits json.splits)
  have mo: "methods_of m = Some xs" using xs m by auto
  have nl: "name_lower m = Inr (py_lower n)" using m n by (simp add: name_lower_def and_then_def)
  have dg: "dict_get m ''supportedGenerationMethods'' (JArr []) = Inr (JArr xs)"
    using xs m by auto
  show ?thesis
    using mo nl dg m n
    by (simp add: text_capable_def and_then_def spec_included_def contains_ci_def markers_lower)
qed

lemma comprehension_spec:
  "\<forall>m\<in>set ms. well_formed_entry m \<Longrightarrow> comprehension ms = Inr (spec_discover ms)"
proof (induction ms)
  case Nil
  then show ?case by (simp add: spec_discover_def)
next
  case (Cons m ms)
  then have wf: "well_formed_entry m" and IH: "comprehension ms = Inr (spec_discover ms)" by auto
  from wf obtain kvs n where m: "m = JObj kvs" and n: "map_of kvs ''name'' = Some (JStr n)"
    by (cases m) (auto simp: well_formed_entry_def split: option.splits json.splits)
  show ?case
    using text_capable_spec [OF wf] IH m n
    by (simp add: and_then_def spec_discover_def)
qed

text \<open>
  C5. When the listing call answers 200 with an array of well-formed entries, the result
  is the list of the included entries, in the order of the listing.
\<close>

theorem discover_filters_listing:
  assumes "status_code r = 200"
    and "r_json r = Inr (JObj kvs)"
    and "map_of kvs ''models'' = Some (JArr ms)"
    and "\<forall>m\<in>set ms. well_formed_entry m"
  shows "get_supported_models (Responds r) = spec_discover ms"
  using assms comprehension_spec [of ms]
  by (simp add: get_supported_models_def discovered_def and_then_def)

theorem discover_filters_listing_witness:
  "get_supported_models
     (listing_of
        [entry ''models/gemini-1.5-flash'' [''generateContent'', ''countTokens''],
         entry ''models/embedding-001'' [''embedContent''],
         entry ''models/gemini-2.5-flash-preview-TTS'' [''generateContent''],
         entry ''models/aqa'' [''generateContent'', ''generateAnswer''],
         entry ''models/imagen-3.0'' [''predict''],
         entry ''models/Gemini-Pro-Vision'' [''generateContent'']]) =
   [''gemini-1.5-flash'', ''Gemini-Pro-Vision'']"
proof -
  let ?ms = "[entry ''models/gemini-1.5-flash'' [''generateContent'', ''countTokens''],
         entry ''models/embedding-001'' [''embedContent''],
         entry ''models/gemini-2.5-flash-preview-TTS'' [''generateContent''],
         entry ''models/aqa'' [''generateContent'', ''generateAnswer''],
         entry ''models/imagen-3.0'' [''predict''],
         entry ''models/Gemini-Pro-Vision'' [''generateContent'']]"
  let ?r = "\<lparr>status_code = 200, content_type = Some ''application/json; charset=UTF-8'',
       r_json = Inr (JObj [(''models'', JArr ?ms)]), r_text = []\<rparr>"
  have wf: "\<forall>m\<in>set ?ms. well_formed_entry m"
    by (simp add: well_formed_entry_def entry_def)
  have sp: "spec_discover ?ms = [''gemini-1.5-flash'', ''Gemini-Pro-Vision'']"
    by (simp add: spec_discover_def spec_included_def contains_ci_def entry_def py_lower_def
          lower_char_def last_segment_def char_of_def bit_Suc_0_iff)
  have "get_supported_models (Responds ?r) = spec_discover ?ms"
    by (rule discover_filters_listing [of ?r "[(''models'', JArr ?ms)]" ?ms]) (simp_all add: wf)
  then show ?thesis using sp by (simp add: listing_of_def)
qed

text \<open>
  What discovery returns, case by case: the static list when the request raises, when the
  answer is not 200 and when the body of a 200 answer cannot be read; otherwise exactly
  what the comprehension built. The static list has six names.
\<close>

lemma discovery_cases:
  "get_supported_models (Raises m) = AVAILABLE_MODELS
   \<and> (status_code r \<noteq> 200 \<longrightarrow> get_supported_models (Responds r) = AVAILABLE_MODELS)
   \<and> (status_code r = 200 \<and> discovered r = Inl e \<longrightarrow>
        get_supported_models (Responds r) = AVAILABLE_MODELS)
   \<and> (status_code r = 200 \<and> discovered r = Inr models \<longrightarrow>
        get_supported_models (Responds r) = models)
   \<and> (r_json r = Inl m' \<longrightarrow> discovered r = Inl (JSONDecodeError m'))
   \<and> AVAILABLE_MODELS =
       [''gemini-1.5-flash'', ''gemini-1.5-pro'', ''gemini-2.0-flash'',
        ''gemini-1.5-flash-latest'', ''gemini-1.5-pro-latest'', ''gemini-1.0-pro'']"
  by (simp add: get_supported_models_def discovered_def and_then_def AVAILABLE_MODELS_def)

text \<open>A 200 listing of well-formed entries none of which is included gives the empty list.\<close>

lemma no_fallback_on_empty_filter:
  assumes "status_code r = 200"
    and "r_json r = Inr (JObj kvs)"
    and "map_of kvs ''models'' = Some (JArr ms)"
    and "\<forall>m\<in>set ms. well_formed_entry m"
    and "filter spec_included ms = []"
  shows "get_supported_models (Responds r) = []"
  using assms comprehension_spec [of ms]
  by (simp add: get_supported_models_def discovered_def and_then_def spec_discover_def)

text \<open>
  C2. Discovery should never return an empty list: an empty filtered result should give
  the static list, and the invoker's own comment says the hardcoded models are tried after
  the discovered ones. The code returns the filtered list as it is: for a 200 listing whose
  two models are an embedding model and a speech model, the result is empty.
\<close>

theorem discovery_may_be_empty:
  "get_supported_models
     (listing_of
        [entry ''models/text-embedding-004'' [''embedContent''],
         entry ''models/gemini-2.5-pro-preview-tts'' [''generateContent'']]) = []"
  by (simp add: ev)

subsection \<open>The loop, case by case\<close>

text \<open>
  Every run of the loop is of one of three kinds: some pass returns after passes that all
  went on; some pass breaks after passes that all went on; or every pass goes on and the
  list is exhausted. The models posted to are then the candidates up to that pass.
\<close>

lemma try_models_trichotomy:
  "(\<exists>n<length ms. \<exists>body.
       (\<forall>k<n. \<exists>e. attempt sj (ms ! k) (post (length tried + k) (ms ! k)) = Next e) \<and>
       attempt sj (ms ! n) (post (length tried + n) (ms ! n)) = Return body \<and>
       try_models sj post ms le tried = (Inr body, tried @ take (Suc n) ms))
   \<or> (\<exists>n<length ms. \<exists>e.
       (\<forall>k<n. \<exists>e. attempt sj (ms ! k) (post (length tried + k) (ms ! k)) = Next e) \<and>
       attempt sj (ms ! n) (post (length tried + n) (ms ! n)) = Break e \<and>
       try_models sj post ms le tried = (Inl (all_failed e), tried @ take (Suc n) ms))
   \<or> ((\<forall>k<length ms. \<exists>e. attempt sj (ms ! k) (post (length tried + k) (ms ! k)) = Next e) \<and>
       (\<exists>e. (ms = [] \<and> e = le \<or>
             ms \<noteq> [] \<and> attempt sj (last ms) (post (length tried + (length ms - 1)) (last ms)) = Next e) \<and>
       try_models sj post ms le tried = (Inl (all_failed e), tried @ ms)))"
proof (induction ms arbitrary: le tried)
  case Nil
  then show ?case by simp
next
  case (Cons m ms)
  show ?case
  proof (cases "attempt sj m (post (length tried) m)")
    case (Return body)
    then show ?thesis by auto
  next
    case (Break e)
    then show ?thesis by auto
  next
    case (Next e)
    let ?a = "\<lambda>k. attempt sj (ms ! k) (post (length (tried @ [m]) + k) (ms ! k))"
    let ?b = "\<lambda>k. attempt sj ((m # ms) ! k) (post (length tried + k) ((m # ms) ! k))"
    have shift: "?b (Suc k) = ?a k" for k by simp
    have b0: "?b 0 = Next e" using Next by simp
    have all: "(\<forall>k<Suc n. \<exists>e. ?b k = Next e) = (\<forall>k<n. \<exists>e. ?a k = Next e)" for n
      using b0 shift by (auto simp: less_Suc_eq_0_disj)
    have step: "try_models sj post (m # ms) le tried = try_models sj post ms e (tried @ [m])"
      using Next by simp
    from Cons.IH [where le = e and tried = "tried @ [m]"]
    consider
      (ret) n body where "n < length ms" "\<forall>k<n. \<exists>e. ?a k = Next e" "?a n = Return body"
        "try_models sj post ms e (tried @ [m]) = (Inr body, (tried @ [m]) @ take (Suc n) ms)"
    | (brk) n e' where "n < length ms" "\<forall>k<n. \<exists>e. ?a k = Next e" "?a n = Break e'"
        "try_models sj post ms e (tried @ [m]) = (Inl (all_failed e'), (tried @ [m]) @ take (Suc n) ms)"
    | (nxt) e' where "\<forall>k<length ms. \<exists>e. ?a k = Next e"
        "ms = [] \<and> e' = e \<or> ms \<noteq> [] \<and> ?a (length ms - 1) = Next e'"
        "try_models sj post ms e (tried @ [m]) = (Inl (all_failed e'), (tried @ [m]) @ ms)"
      by (auto simp: last_conv_nth)
    then show ?thesis
    proof cases
      case ret
      have "Suc n < length (m # ms)" using ret(1) by simp
      moreover have "\<forall>k<Suc n. \<exists>e. ?b k = Next e" using ret(2) all by blast
      moreover have "?b (Suc n) = Return body" using ret(3) shift by simp
      moreover have "try_models sj post (m # ms) le tried = (Inr body, tried @ take (Suc (Suc n)) (m # ms))"
        using ret(4) step by simp
      ultimately show ?thesis by blast
    next
      case brk
      have "Suc n < length (m # ms)" using brk(1) by simp
      moreover have "\<forall>k<Suc n. \<exists>e. ?b k = Next e" using brk(2) all by blast
      moreover have "?b (Suc n) = Break e'" using brk(3) shift by simp
      moreover have "try_models sj post (m # ms) le tried = (Inl (all_failed e'), tried @ take (Suc (Suc n)) (m # ms))"
        using brk(4) step by simp
      ultimately show ?thesis by blast
    next
      case nxt
      have A: "\<forall>k<length (m # ms). \<exists>e. ?b k = Next e" using nxt(1) all [of "length ms"] by simp
      have B: "?b (length (m # ms) - 1) = Next e'"
      proof (cases ms)
        case Nil then show ?thesis using nxt(2) b0 by simp
      next
        case (Cons x xs)
        then have "length (m # ms) - 1 = Suc (length ms - 1)" by simp
        then show ?thesis using nxt(2) Cons shift [of "length ms - 1"] by simp
      qed
      have B': "attempt sj (last (m # ms)) (post (length tried + (length (m # ms) - 1)) (last (m # ms))) = Next e'"
        using B by (simp add: last_conv_nth del: last.simps)
      have C: "try_models sj post (m # ms) le tried = (Inl (all_failed e'), tried @ m # ms)"
        using nxt(3) step by simp
      show ?thesis using A B' C by blast
    qed
  qed
qed

lemma attempt_Return_iff:
  "attempt sj model posted = Return body \<longleftrightarrow>
     (\<exists>r. posted = Responds r \<and> status_code r = 200 \<and> r_json r = Inr body)"
  by (auto simp: attempt_def split: reply.splits sum.splits if_splits)


subsection \<open>Fallback invoker\<close>

text \<open>
  C1. A candidate that answers 400 or 403 should end the loop, so that no later model is
  tried. The code reaches its \<^verbatim>\<open>break\<close> only after it has read the error body: when
  the response announces \<^verbatim>\<open>application/json\<close> and \<^verbatim>\<open>r.json()\<close> raises, the
  \<^verbatim>\<open>except\<close> clause records that exception and continues. Here the second of the static
  models answers such a 400, and the third model is posted to and its answer returned.
\<close>

theorem unreadable_400_goes_on:
  "call_gemini str_json (Raises ''timed out'') (canned [fail 500, unreadable 400, success body]) =
     (Inr body, [''gemini-1.5-flash'', ''gemini-1.5-pro'', ''gemini-2.0-flash''])"
  by (simp add: ev ev2)

text \<open>
  On a 400 or 403 answer the pass breaks exactly when the error body could be read.
\<close>

lemma attempt_400_403:
  "status_code r = 400 \<or> status_code r = 403 \<Longrightarrow>
   attempt str_json model (Responds r) =
     (case error_data str_json r of
        Inr err \<Rightarrow> Break (api_error (status_code r) model err)
      | Inl m \<Rightarrow> Next m)"
  by (auto simp: attempt_def split: sum.splits)

text \<open>With an error body the code can read, the same 400 ends the loop.\<close>

lemma readable_400_breaks:
  "call_gemini str_json (Raises ''timed out'') (canned [fail 500, fail 400, success body]) =
     (Inl (Exception ''All AI attempts failed. Final error: API 400 (gemini-1.5-pro): failed''),
      [''gemini-1.5-flash'', ''gemini-1.5-pro''])"
  by (simp add: ev ev2)

text \<open>
  C3, as the code has it. The invoker fails exactly in three ways, and each time it raises
  \<^verbatim>\<open>Exception("All AI attempts failed. Final error: " + last_error)\<close>: with no
  candidate at all, \<^verbatim>\<open>last_error\<close> is \<^verbatim>\<open>No models attempted\<close> and nothing is
  posted; when a pass breaks after passes that all went on, \<^verbatim>\<open>last_error\<close> is what
  that pass recorded and the models posted to end with its model; when every pass goes on,
  \<^verbatim>\<open>last_error\<close> is what the last pass recorded and every candidate was posted to.
\<close>

theorem failure_raises_last_error:
  "call_gemini sj listing post = (Inl x, tried) \<longleftrightarrow>
     (\<exists>e. x = Exception (''All AI attempts failed. Final error: '' @ e) \<and>
        (get_supported_models listing = [] \<and> e = ''No models attempted'' \<and> tried = []
         \<or> (\<exists>n<length (get_supported_models listing).
               (\<forall>k<n. \<exists>e'. attempt sj (get_supported_models listing ! k)
                              (post k (get_supported_models listing ! k)) = Next e') \<and>
               attempt sj (get_supported_models listing ! n)
                 (post n (get_supported_models listing ! n)) = Break e \<and>
               tried = take (Suc n) (get_supported_models listing))
         \<or> (get_supported_models listing \<noteq> [] \<and>
             (\<forall>k<length (get_supported_models listing).
                 \<exists>e'. attempt sj (get_supported_models listing ! k)
                        (post k (get_supported_models listing ! k)) = Next e') \<and>
             attempt sj (get_supported_models listing ! (length (get_supported_models listing) - 1))
               (post (length (get_supported_models listing) - 1)
                  (get_supported_models listing ! (length (get_supported_models listing) - 1))) = Next e \<and>
             tried = get_supported_models listing)))"
  (is "?L \<longleftrightarrow> ?R")
proof -
  let ?ms = "get_supported_models listing"
  let ?a = "\<lambda>k. attempt sj (?ms ! k) (post k (?ms ! k))"
  let ?T = "try_models sj post ?ms ''No models attempted'' []"
  have cg: "call_gemini sj listing post = ?T" by (simp add: call_gemini_def)
  from try_models_trichotomy [of ?ms sj post "[]" "''No models attempted''"]
  consider
    (ret) n b where "n < length ?ms" "\<forall>k<n. \<exists>e. ?a k = Next e" "?a n = Return b"
      "?T = (Inr b, take (Suc n) ?ms)"
  | (brk) n e where "n < length ?ms" "\<forall>k<n. \<exists>e. ?a k = Next e" "?a n = Break e"
      "?T = (Inl (all_failed e), take (Suc n) ?ms)"
  | (nxt) e where "\<forall>k<length ?ms. \<exists>e. ?a k = Next e"
      "?ms = [] \<and> e = ''No models attempted'' \<or> ?ms \<noteq> [] \<and> ?a (length ?ms - 1) = Next e"
      "?T = (Inl (all_failed e), ?ms)"
    by (auto simp: last_conv_nth)
  then show ?thesis
  proof cases
    case ret
    have "\<not> ?L" using ret(4) cg by simp
    moreover have "\<not> ?R"
    proof
      assume ?R
      then obtain e where
        d: "?ms = [] \<or>
            (\<exists>m<length ?ms. (\<forall>k<m. \<exists>e'. ?a k = Next e') \<and> ?a m = Break e) \<or>
            (\<forall>k<length ?ms. \<exists>e'. ?a k = Next e')"
        by blast
      from d show False
      proof (elim disjE)
        assume "?ms = []" then show False using ret(1) by simp
      next
        assume "\<exists>m<length ?ms. (\<forall>k<m. \<exists>e'. ?a k = Next e') \<and> ?a m = Break e"
        then obtain m where m: "m < length ?ms" "\<forall>k<m. \<exists>e'. ?a k = Next e'" "?a m = Break e"
          by blast
        have "m \<noteq> n" using m(3) ret(3) by auto
        then consider "m < n" | "n < m" by linarith
        then show False
        proof cases
          case 1 then show ?thesis using ret(2) m(3) by auto
        next
          case 2 then show ?thesis using m(2) ret(3) by auto
        qed
      next
        assume "\<forall>k<length ?ms. \<exists>e'. ?a k = Next e'"
        then show False using ret(1,3) by auto
      qed
    qed
    ultimately show ?thesis by blast
  next
    case brk
    have l: "?L \<longleftrightarrow> x = all_failed e \<and> tried = take (Suc n) ?ms"
      using brk(4) cg by auto
    have ne: "?ms \<noteq> []" using brk(1) by auto
    have notall: "\<not> (\<forall>k<length ?ms. \<exists>e'. ?a k = Next e')" using brk(1,3) by auto
    have uniq: "m = n \<and> e2 = e"
      if "m < length ?ms" "\<forall>k<m. \<exists>e'. ?a k = Next e'" "?a m = Break e2" for m e2
    proof -
      have "m = n"
      proof (rule ccontr)
        assume "m \<noteq> n"
        then consider "m < n" | "n < m" by linarith
        then show False
        proof cases
          case 1 then show ?thesis using brk(2) that(3) by auto
        next
          case 2 then show ?thesis using that(2) brk(3) by auto
        qed
      qed
      then show ?thesis using that(3) brk(3) by auto
    qed
    have r: "?R \<longleftrightarrow> x = all_failed e \<and> tried = take (Suc n) ?ms"
    proof
      assume ?R
      then obtain e2 where x: "x = Exception (''All AI attempts failed. Final error: '' @ e2)"
        and d: "(\<exists>m<length ?ms. (\<forall>k<m. \<exists>e'. ?a k = Next e') \<and> ?a m = Break e2 \<and>
                   tried = take (Suc m) ?ms)"
        using ne notall by blast
      then obtain m where m: "m < length ?ms" "\<forall>k<m. \<exists>e'. ?a k = Next e'" "?a m = Break e2"
        "tried = take (Suc m) ?ms" by blast
      from uniq [OF m(1,2,3)] x m(4) show "x = all_failed e \<and> tried = take (Suc n) ?ms"
        by (simp add: all_failed_def)
    next
      assume "x = all_failed e \<and> tried = take (Suc n) ?ms"
      then show ?R using brk(1,2,3) by (auto simp: all_failed_def)
    qed
    show ?thesis using l r by blast
  next
    case nxt
    have l: "?L \<longleftrightarrow> x = all_failed e \<and> tried = ?ms" using nxt(3) cg by auto
    have nobrk: "\<not> (\<exists>m<length ?ms. \<exists>e2. ?a m = Break e2)" using nxt(1) by auto
    show ?thesis
    proof (cases "?ms = []")
      case True
      then have e: "e = ''No models attempted''" using nxt(2) by simp
      have "?R \<longleftrightarrow> x = all_failed e \<and> tried = ?ms"
        using True e by (auto simp: all_failed_def)
      then show ?thesis using l by blast
    next
      case False
      then have last: "?a (length ?ms - 1) = Next e" using nxt(2) by simp
      have "?R \<longleftrightarrow> x = all_failed e \<and> tried = ?ms"
      proof
        assume ?R
        then obtain e2 where x: "x = Exception (''All AI attempts failed. Final error: '' @ e2)"
          and d: "?a (length ?ms - 1) = Next e2 \<and> tried = ?ms"
          using False nobrk by blast
        then have "e2 = e" using last by simp
        then show "x = all_failed e \<and> tried = ?ms" using x d by (simp add: all_failed_def)
      next
        assume "x = all_failed e \<and> tried = ?ms"
        then show ?R using False nxt(1) last by (auto simp: all_failed_def)
      qed
      then show ?thesis using l by blast
    qed
  qed
qed

theorem failure_raises_last_error_witness:
  "call_gemini plain_str (Raises ''timed out'') (always (fail 403)) =
     (Inl (Exception ''All AI attempts failed. Final error: API 403 (gemini-1.5-flash): failed''),
      [''gemini-1.5-flash''])
   \<and> call_gemini plain_str (Raises ''timed out'') (canned [fail 500, fail 400, success JNull]) =
     (Inl (Exception ''All AI attempts failed. Final error: API 400 (gemini-1.5-pro): failed''),
      [''gemini-1.5-flash'', ''gemini-1.5-pro''])"
proof -
  let ?ms = "get_supported_models (Raises ''timed out'')"
  have ms: "?ms = AVAILABLE_MODELS" by (simp add: get_supported_models_def)
  let ?p1 = "always (fail 403)"
  let ?p2 = "canned [fail 500, fail 400, success JNull]"
  have a0: "attempt plain_str (?ms ! 0) (?p1 0 (?ms ! 0)) = Break ''API 403 (gemini-1.5-flash): failed''"
    by (simp add: ev ev2)
  have b0: "attempt plain_str (?ms ! 0) (?p2 0 (?ms ! 0)) = Next ''API 500 (gemini-1.5-flash): failed''"
    by (simp add: ev ev2)
  have b1: "attempt plain_str (?ms ! 1) (?p2 1 (?ms ! 1)) = Break ''API 400 (gemini-1.5-pro): failed''"
    by (simp add: ev ev2)
  have nx: "\<forall>k<1. \<exists>e'. attempt plain_str (?ms ! k) (?p2 k (?ms ! k)) = Next e'"
    using b0 by simp
  have t1: "[''gemini-1.5-flash''] = take (Suc 0) ?ms" by (simp add: ms AVAILABLE_MODELS_def)
  have t2: "[''gemini-1.5-flash'', ''gemini-1.5-pro''] = take (Suc 1) ?ms"
    by (simp add: ms AVAILABLE_MODELS_def)
  have len: "0 < length ?ms" "1 < length ?ms" by (simp_all add: ms AVAILABLE_MODELS_def)
  have one: "call_gemini plain_str (Raises ''timed out'') ?p1 =
     (Inl (Exception (''All AI attempts failed. Final error: '' @ ''API 403 (gemini-1.5-flash): failed'')),
      [''gemini-1.5-flash''])"
    apply (rule failure_raises_last_error [THEN iffD2])
    apply (rule exI [of _ "''API 403 (gemini-1.5-flash): failed''"])
    apply (rule conjI, rule refl)
    apply (rule disjI2, rule disjI1)
    apply (rule exI [of _ 0])
    using a0 t1 len(1) by simp
  have two: "call_gemini plain_str (Raises ''timed out'') ?p2 =
     (Inl (Exception (''All AI attempts failed. Final error: '' @ ''API 400 (gemini-1.5-pro): failed'')),
      [''gemini-1.5-flash'', ''gemini-1.5-pro''])"
    apply (rule failure_raises_last_error [THEN iffD2])
    apply (rule exI [of _ "''API 400 (gemini-1.5-pro): failed''"])
    apply (rule conjI, rule refl)
    apply (rule disjI2, rule disjI1)
    apply (rule exI [of _ 1])
    using nx b1 t2 len(2) by simp
  show ?thesis using one two by simp
qed

text \<open>
  The failure is an exception that holds a message and nothing else: with every request
  refused, six attempts and one attempt raise the same value.
\<close>

theorem failure_without_attempt_list:
  "call_gemini plain_str (Raises ''timed out'') (always (Raises ''connection refused'')) =
     (Inl (Exception ''All AI attempts failed. Final error: connection refused''),
      [''gemini-1.5-flash'', ''gemini-1.5-pro'', ''gemini-2.0-flash'',
       ''gemini-1.5-flash-latest'', ''gemini-1.5-pro-latest'', ''gemini-1.0-pro''])
   \<and> call_gemini plain_str (listing_of [entry ''models/gemini-pro'' [''generateContent'']])
        (always (Raises ''connection refused'')) =
     (Inl (Exception ''All AI attempts failed. Final error: connection refused''),
      [''gemini-pro''])"
  by (simp add: ev ev2)

text \<open>
  C4. The invoker returns a body exactly when some candidate, reached after passes that
  all went on, answers 200 with a body that parses; the result is that body, and the models
  posted to end with that candidate. A 200 answer whose body does not parse goes on to the
  next candidate.
\<close>

theorem success_is_first_parsed_200:
  "(call_gemini sj listing post = (Inr body, tried) \<longleftrightarrow>
      (\<exists>n<length (get_supported_models listing).
         (\<forall>k<n. \<exists>e. attempt sj (get_supported_models listing ! k)
                        (post k (get_supported_models listing ! k)) = Next e) \<and>
         (\<exists>r. post n (get_supported_models listing ! n) = Responds r \<and>
              status_code r = 200 \<and> r_json r = Inr body) \<and>
         tried = take (Suc n) (get_supported_models listing)))
   \<and> (status_code r' = 200 \<and> r_json r' = Inl m \<longrightarrow> attempt sj model (Responds r') = Next m)"
proof -
  let ?ms = "get_supported_models listing"
  let ?a = "\<lambda>k. attempt sj (?ms ! k) (post k (?ms ! k))"
  let ?R = "try_models sj post ?ms ''No models attempted'' []"
  have tri:
    "(\<exists>n<length ?ms. \<exists>b. (\<forall>k<n. \<exists>e. ?a k = Next e) \<and> ?a n = Return b \<and>
         ?R = (Inr b, take (Suc n) ?ms))
     \<or> (\<exists>n<length ?ms. \<exists>e. (\<forall>k<n. \<exists>e. ?a k = Next e) \<and> ?a n = Break e \<and>
         ?R = (Inl (all_failed e), take (Suc n) ?ms))
     \<or> ((\<forall>k<length ?ms. \<exists>e. ?a k = Next e) \<and> (\<exists>e. ?R = (Inl (all_failed e), ?ms)))"
    using try_models_trichotomy [of ?ms sj post "[]" "''No models attempted''"] by auto
  have fwd: "\<exists>n<length ?ms. (\<forall>k<n. \<exists>e. ?a k = Next e) \<and> ?a n = Return body \<and> tried = take (Suc n) ?ms"
    if "?R = (Inr body, tried)"
    using tri that by auto
  have bwd: "?R = (Inr body, tried)"
    if n: "n < length ?ms" and nx: "\<forall>k<n. \<exists>e. ?a k = Next e" and rt: "?a n = Return body"
      and tr: "tried = take (Suc n) ?ms" for n
  proof -
    from tri consider
      (ret) n' b where "n' < length ?ms" "\<forall>k<n'. \<exists>e. ?a k = Next e" "?a n' = Return b"
        "?R = (Inr b, take (Suc n') ?ms)"
    | (brk) n' e where "n' < length ?ms" "\<forall>k<n'. \<exists>e. ?a k = Next e" "?a n' = Break e"
    | (nxt) "\<forall>k<length ?ms. \<exists>e. ?a k = Next e"
      by blast
    then show ?thesis
    proof cases
      case ret
      have "n' = n"
      proof (rule ccontr)
        assume "n' \<noteq> n"
        then consider "n' < n" | "n < n'" by linarith
        then show False
        proof cases
          case 1 then show ?thesis using nx ret(3) by auto
        next
          case 2 then show ?thesis using ret(2) rt by auto
        qed
      qed
      then show ?thesis using ret rt tr by simp
    next
      case brk
      have "n' \<noteq> n" using brk(3) rt by auto
      then consider "n' < n" | "n < n'" by linarith
      then show ?thesis
      proof cases
        case 1 then show ?thesis using nx brk(3) by auto
      next
        case 2 then show ?thesis using brk(2) rt by auto
      qed
    next
      case nxt
      then show ?thesis using n rt by auto
    qed
  qed
  have iff: "call_gemini sj listing post = (Inr body, tried) \<longleftrightarrow>
      (\<exists>n<length ?ms. (\<forall>k<n. \<exists>e. ?a k = Next e) \<and> ?a n = Return body \<and> tried = take (Suc n) ?ms)"
    unfolding call_gemini_def using fwd bwd by blast
  have parse: "status_code r' = 200 \<and> r_json r' = Inl m \<longrightarrow> attempt sj model (Responds r') = Next m"
    by (simp add: attempt_def)
  show ?thesis
    using iff parse unfolding attempt_Return_iff by blast
qed

theorem success_is_first_parsed_200_witness:
  "call_gemini plain_str (Raises ''timed out'') (canned [fail 500, fail 500, success (JObj [])]) =
     (Inr (JObj []), [''gemini-1.5-flash'', ''gemini-1.5-pro'', ''gemini-2.0-flash''])"
proof -
  let ?post = "canned [fail 500, fail 500, success (JObj [])]"
  let ?ms = "get_supported_models (Raises ''timed out'')"
  have ms: "?ms = AVAILABLE_MODELS" by (simp add: get_supported_models_def)
  have a0: "attempt plain_str (?ms ! 0) (?post 0 (?ms ! 0)) = Next ''API 500 (gemini-1.5-flash): failed''"
    by (simp add: ev ev2)
  have a1: "attempt plain_str (?ms ! 1) (?post 1 (?ms ! 1)) = Next ''API 500 (gemini-1.5-pro): failed''"
    by (simp add: ev ev2)
  have nx: "\<forall>k<2. \<exists>e. attempt plain_str (?ms ! k) (?post k (?ms ! k)) = Next e"
    using a0 a1 by (auto simp: less_2_cases_iff)
  have ok: "\<exists>r. ?post 2 (?ms ! 2) = Responds r \<and> status_code r = 200 \<and> r_json r = Inr (JObj [])"
    by (simp add: ev2)
  have tk: "[''gemini-1.5-flash'', ''gemini-1.5-pro'', ''gemini-2.0-flash''] = take (Suc 2) ?ms"
    by (simp add: ms AVAILABLE_MODELS_def)
  have len: "2 < length ?ms" by (simp add: ms AVAILABLE_MODELS_def)
  from success_is_first_parsed_200
    [of plain_str "Raises ''timed out''" ?post "JObj []"
      "[''gemini-1.5-flash'', ''gemini-1.5-pro'', ''gemini-2.0-flash'']"]
  show ?thesis using len nx ok tk by blast
qed

text \<open>
  C10. With no candidate the loop body never runs: no request is posted and the exception
  carries the initial value of \<^verbatim>\<open>last_error\<close>. A listing that answers 200 with no
  text-capable model gives that empty list.
\<close>

theorem no_candidates_no_calls:
  "get_supported_models listing = [] \<Longrightarrow>
   call_gemini str_json listing post =
     (Inl (Exception ''All AI attempts failed. Final error: No models attempted''), [])"
  by (simp add: call_gemini_def all_failed_def)

theorem no_candidates_no_calls_witness:
  "get_supported_models (listing_of [entry ''models/embedding-001'' [''embedContent'']]) = [] \<and>
   call_gemini plain_str (listing_of [entry ''models/embedding-001'' [''embedContent'']])
       (canned [success JNull]) =
     (Inl (Exception ''All AI attempts failed. Final error: No models attempted''), [])"
proof -
  have h: "get_supported_models (listing_of [entry ''models/embedding-001'' [''embedContent'']]) = []"
    by (simp add: ev)
  show ?thesis
    using h no_candidates_no_calls [OF h, of plain_str "canned [success JNull]"] by simp
qed

subsection \<open>The search for the span\<close>

text \<open>
  The regular-expression search finds the greedy span: it succeeds exactly when a
  \<^verbatim>\<open>}\<close> follows the first \<^verbatim>\<open>{\<close>, and then matches from that \<^verbatim>\<open>{\<close> to the last
  \<^verbatim>\<open>}\<close>.
\<close>

lemma takeWhile_no_close:
  "CHR ''}'' \<notin> set cs \<Longrightarrow> takeWhile (\<lambda>c. c \<noteq> CHR ''}'') (rev cs) = rev cs"
  by (rule takeWhile_eq_all_conv [THEN iffD2]) auto

lemma last_close_none: "CHR ''}'' \<notin> set cs \<Longrightarrow> last_close cs = 0"
  by (simp add: last_close_def takeWhile_no_close)

lemma last_close_Cons:
  "last_close (c # cs) =
     (if CHR ''}'' \<in> set cs then Suc (last_close cs) else if c = CHR ''}'' then 1 else 0)"
proof (cases "CHR ''}'' \<in> set cs")
  case True
  then have tw: "takeWhile (\<lambda>c. c \<noteq> CHR ''}'') (rev cs @ [c]) = takeWhile (\<lambda>c. c \<noteq> CHR ''}'') (rev cs)"
    by (simp add: takeWhile_append1 [where x = "CHR ''}''"])
  have "length (takeWhile (\<lambda>c. c \<noteq> CHR ''}'') (rev cs)) \<le> length cs"
    using length_takeWhile_le [of "\<lambda>c. c \<noteq> CHR ''}''" "rev cs"] by simp
  then show ?thesis using True tw by (simp add: last_close_def Suc_diff_le)
next
  case False
  have "takeWhile (\<lambda>c. c \<noteq> CHR ''}'') (rev cs @ [c]) = rev cs @ takeWhile (\<lambda>c. c \<noteq> CHR ''}'') [c]"
    by (rule takeWhile_append2) (use False in auto)
  then show ?thesis using False by (simp add: last_close_def)
qed

lemma dot_star_brace_greedy:
  "dot_star_brace cs = (if CHR ''}'' \<in> set cs then Some (take (last_close cs) cs) else None)"
  by (induction cs) (auto simp: last_close_Cons last_close_none)

lemma re_search_none: "CHR ''}'' \<notin> set cs \<Longrightarrow> re_search cs = None"
  by (induction cs) (auto simp: dot_star_brace_greedy)

lemma greedy_span_none: "CHR ''}'' \<notin> set cs \<Longrightarrow> greedy_span cs = None"
  by (simp add: greedy_span_def last_close_none)

lemma re_search_greedy: "re_search s = greedy_span s"
proof (induction s)
  case Nil
  then show ?case by (simp add: greedy_span_def first_open_def last_close_def)
next
  case (Cons c cs)
  show ?case
  proof (cases "CHR ''}'' \<in> set cs")
    case True
    show ?thesis
    proof (cases "c = CHR ''{''")
      case brace: True
      then show ?thesis using \<open>CHR ''}'' \<in> set cs\<close>
        by (simp add: dot_star_brace_greedy greedy_span_def first_open_def last_close_Cons)
    next
      case False
      then have "re_search (c # cs) = greedy_span cs" using Cons.IH by simp
      moreover have "greedy_span (c # cs) = greedy_span cs"
        using False True by (simp add: greedy_span_def first_open_def last_close_Cons)
      ultimately show ?thesis by simp
    qed
  next
    case False
    then have "re_search (c # cs) = None"
      using re_search_none [of cs] by (simp add: dot_star_brace_greedy)
    moreover have "greedy_span (c # cs) = None"
      using False by (auto simp: greedy_span_def first_open_def last_close_Cons)
    ultimately show ?thesis by simp
  qed
qed

text \<open>What a match looks like inside the text.\<close>

lemma dot_star_brace_shape:
  "dot_star_brace cs = Some m \<Longrightarrow>
     \<exists>rest. cs = m @ rest \<and> CHR ''}'' \<notin> set rest \<and> m \<noteq> [] \<and> last m = CHR ''}''"
proof (induction cs arbitrary: m)
  case Nil
  then show ?case by simp
next
  case (Cons c cs)
  show ?case
  proof (cases "dot_star_brace cs")
    case None
    then have no: "CHR ''}'' \<notin> set cs" by (simp add: dot_star_brace_greedy split: if_splits)
    from Cons.prems None have "c = CHR ''}''" "m = [c]" by (auto split: if_splits)
    then show ?thesis using no by simp
  next
    case (Some m')
    with Cons.prems have m: "m = c # m'" by simp
    from Cons.IH [OF Some] obtain rest where
      "cs = m' @ rest" "CHR ''}'' \<notin> set rest" "m' \<noteq> []" "last m' = CHR ''}''" by blast
    then show ?thesis using m by simp
  qed
qed

lemma re_search_shape:
  "re_search s = Some m \<Longrightarrow>
     \<exists>before rest. s = before @ m @ rest \<and> CHR ''{'' \<notin> set before \<and> CHR ''}'' \<notin> set rest \<and>
        hd m = CHR ''{'' \<and> last m = CHR ''}'' \<and> 2 \<le> length m"
proof (induction s)
  case Nil
  then show ?case by simp
next
  case (Cons c cs)
  show ?case
  proof (cases "c = CHR ''{'' \<and> dot_star_brace cs \<noteq> None")
    case True
    then obtain m' where m': "dot_star_brace cs = Some m'" by auto
    with True Cons.prems have m: "m = c # m'" by simp
    from dot_star_brace_shape [OF m'] obtain rest where
      r: "cs = m' @ rest" "CHR ''}'' \<notin> set rest" "m' \<noteq> []" "last m' = CHR ''}''" by blast
    have "c # cs = [] @ m @ rest" using m r by simp
    moreover have "hd m = CHR ''{''" "last m = CHR ''}''" "2 \<le> length m"
      using m r True by (auto simp: Suc_le_eq)
    ultimately show ?thesis using r(2) by (metis empty_iff list.set(1))
  next
    case False
    then have "re_search (c # cs) = re_search cs"
      by (auto split: option.splits)
    with Cons.prems have rs: "re_search cs = Some m" by simp
    have cne: "c \<noteq> CHR ''{''"
    proof
      assume c: "c = CHR ''{''"
      with False have "dot_star_brace cs = None" by simp
      then have "CHR ''}'' \<notin> set cs" by (simp add: dot_star_brace_greedy split: if_splits)
      then have "re_search cs = None" by (rule re_search_none)
      with rs show False by simp
    qed
    from Cons.IH [OF rs] obtain before rest where
      b: "cs = before @ m @ rest" "CHR ''{'' \<notin> set before" "CHR ''}'' \<notin> set rest"
         "hd m = CHR ''{''" "last m = CHR ''}''" "2 \<le> length m" by blast
    have "c # cs = (c # before) @ m @ rest" using b(1) by simp
    moreover have "CHR ''{'' \<notin> set (c # before)" using cne b(2) by auto
    ultimately show ?thesis using b by blast
  qed
qed

subsection \<open>The deletion of the fences\<close>

text \<open>
  \<^verbatim>\<open>re.sub\<close> with its two alternatives deletes, from left to right, the longest fence
  marker wherever one starts, and nothing else.
\<close>

lemma backtick_not_space: "\<not> py_isspace (CHR 0x60)"
  by (simp add: py_isspace_def)

lemma fence_marker_json: "list_all py_isspace w \<Longrightarrow> fence_marker (''```json'' @ w)"
  unfolding fence_marker_def by blast

lemma fence_marker_plain: "list_all py_isspace w \<Longrightarrow> fence_marker (w @ ''```'')"
  unfolding fence_marker_def by blast

lemma space_run_unique:
  assumes "list_all py_isspace w" and "prefix (w @ ''```'') s"
  shows "w = takeWhile py_isspace s" and "prefix ''```'' (dropWhile py_isspace s)"
proof -
  from assms(2) obtain r where s: "s = w @ CHR 0x60 # (''``'' @ r)"
    by (auto simp: prefix_def)
  have all: "\<forall>x\<in>set w. py_isspace x" using assms(1) by (simp add: list_all_iff)
  have tw: "takeWhile py_isspace s = w"
    unfolding s using all backtick_not_space by (simp add: takeWhile_tail)
  have dw: "dropWhile py_isspace s = CHR 0x60 # (''``'' @ r)"
    unfolding s using all backtick_not_space by (simp add: dropWhile_append3)
  show "w = takeWhile py_isspace s" using tw by simp
  show "prefix ''```'' (dropWhile py_isspace s)" using dw by simp
qed

lemma marker_prefix_cases:
  assumes "fence_marker m" and "prefix m s"
  shows "(prefix ''```json'' s \<and> (\<exists>w. list_all py_isspace w \<and> m = ''```json'' @ w))
       \<or> (m = takeWhile py_isspace s @ ''```'' \<and> prefix ''```'' (dropWhile py_isspace s))"
proof -
  from assms(1) obtain w where w: "list_all py_isspace w"
    and m: "m = ''```json'' @ w \<or> m = w @ ''```''"
    unfolding fence_marker_def by blast
  from m show ?thesis
  proof
    assume "m = ''```json'' @ w"
    then have "prefix ''```json'' s" using assms(2) by (metis append_prefixD)
    then show ?thesis using w \<open>m = ''```json'' @ w\<close> by blast
  next
    assume mp: "m = w @ ''```''"
    then have "prefix (w @ ''```'') s" using assms(2) by simp
    from space_run_unique [OF w this] mp show ?thesis by simp
  qed
qed

lemma json_marker_longest:
  assumes "prefix ''```json'' s"
  shows "longest_marker (''```json'' @ takeWhile py_isspace (drop 7 s)) s"
    and "s = (''```json'' @ takeWhile py_isspace (drop 7 s)) @ dropWhile py_isspace (drop 7 s)"
proof -
  let ?d = "''```json'' @ takeWhile py_isspace (drop 7 s)"
  from assms obtain r where s: "s = ''```json'' @ r" by (auto simp: prefix_def)
  have r: "drop 7 s = r" unfolding s by simp
  have "s = ''```json'' @ r" by (rule s)
  also have "\<dots> = ''```json'' @ (takeWhile py_isspace r @ dropWhile py_isspace r)"
    by (simp only: takeWhile_dropWhile_id)
  also have "\<dots> = ?d @ dropWhile py_isspace (drop 7 s)"
    by (simp only: r append_assoc)
  finally show dec: "s = ?d @ dropWhile py_isspace (drop 7 s)" .
  have fm: "fence_marker ?d"
    by (rule fence_marker_json) (auto simp: list_all_iff dest: set_takeWhileD)
  have pf: "prefix ?d s" using dec by (metis prefixI)
  have lg: "length m' \<le> length ?d" if "fence_marker m'" "prefix m' s" for m'
  proof -
    from marker_prefix_cases [OF that] show ?thesis
    proof
      assume "prefix ''```json'' s \<and> (\<exists>w. list_all py_isspace w \<and> m' = ''```json'' @ w)"
      then obtain w where w: "list_all py_isspace w" "m' = ''```json'' @ w" by blast
      have "prefix w r" using that(2) w(2) unfolding s by simp
      then obtain r' where r': "r = w @ r'" by (auto simp: prefix_def)
      have "length w \<le> length (takeWhile py_isspace r)"
        unfolding r' using w(1) by (simp add: list_all_iff takeWhile_append2)
      then show ?thesis using w(2) r by simp
    next
      assume a: "m' = takeWhile py_isspace s @ ''```'' \<and> prefix ''```'' (dropWhile py_isspace s)"
      have "takeWhile py_isspace s = []" unfolding s using backtick_not_space by simp
      then show ?thesis using a by simp
    qed
  qed
  show "longest_marker ?d s" unfolding longest_marker_def using fm pf lg by blast
qed

lemma plain_marker_longest:
  assumes "\<not> prefix ''```json'' s" and "prefix ''```'' (dropWhile py_isspace s)"
  shows "longest_marker (takeWhile py_isspace s @ ''```'') s"
    and "s = (takeWhile py_isspace s @ ''```'') @ drop 3 (dropWhile py_isspace s)"
proof -
  let ?d = "takeWhile py_isspace s @ ''```''"
  from assms(2) obtain r where dw: "dropWhile py_isspace s = ''```'' @ r" by (auto simp: prefix_def)
  have "s = takeWhile py_isspace s @ dropWhile py_isspace s" by simp
  then show dec: "s = ?d @ drop 3 (dropWhile py_isspace s)" unfolding dw by simp
  have fm: "fence_marker ?d"
    by (rule fence_marker_plain) (auto simp: list_all_iff dest: set_takeWhileD)
  have pf: "prefix ?d s" using dec by (metis prefixI)
  have lg: "length m' \<le> length ?d" if "fence_marker m'" "prefix m' s" for m'
    using marker_prefix_cases [OF that] assms(1) by auto
  show "longest_marker ?d s" unfolding longest_marker_def using fm pf lg by blast
qed

lemma no_marker_here:
  assumes "\<not> prefix ''```json'' s" and "\<not> prefix ''```'' (dropWhile py_isspace s)"
  shows "no_marker s"
  unfolding no_marker_def using marker_prefix_cases assms by blast

lemma longest_marker_unique:
  assumes "longest_marker m s" and "longest_marker m' s"
  shows "m = m'"
proof -
  from assms have "length m = length m'" "prefix m s" "prefix m' s"
    unfolding longest_marker_def by (auto intro: le_antisym)
  then show ?thesis by (metis prefix_length_prefix prefix_order.antisym order_refl)
qed

lemma re_sub_json:
  assumes "prefix ''```json'' s"
  shows "re_sub_fences s = re_sub_fences (dropWhile py_isspace (drop 7 s))"
proof (cases s)
  case Nil
  with assms show ?thesis by simp
next
  case (Cons c cs)
  from assms have "prefix ''```json'' (c # cs)" unfolding Cons .
  then show ?thesis unfolding Cons
    by (subst re_sub_fences.simps(2)) (simp only: if_True)
qed

lemma re_sub_plain:
  assumes "\<not> prefix ''```json'' s" and "prefix ''```'' (dropWhile py_isspace s)"
  shows "re_sub_fences s = re_sub_fences (drop 3 (dropWhile py_isspace s))"
proof (cases s)
  case Nil
  with assms show ?thesis by simp
next
  case (Cons c cs)
  from assms have "\<not> prefix ''```json'' (c # cs)" "prefix ''```'' (dropWhile py_isspace (c # cs))"
    unfolding Cons by blast+
  then show ?thesis unfolding Cons
    by (subst re_sub_fences.simps(2)) (simp only: if_True if_False)
qed

lemma re_sub_keep:
  assumes "\<not> prefix ''```json'' (c # cs)" and "\<not> prefix ''```'' (dropWhile py_isspace (c # cs))"
  shows "re_sub_fences (c # cs) = c # re_sub_fences cs"
  using assms by (subst re_sub_fences.simps(2)) (simp only: if_False)

lemma re_sub_fences_deletes: "fences_deleted s (re_sub_fences s)"
proof (induction s rule: re_sub_fences.induct)
  case 1
  show ?case by (simp add: nothing_left)
next
  case (2 c cs)
  let ?s = "c # cs"
  show ?case
  proof (cases "prefix ''```json'' ?s")
    case True
    let ?d = "''```json'' @ takeWhile py_isspace (drop 7 ?s)"
    let ?r = "dropWhile py_isspace (drop 7 ?s)"
    have dec: "?s = ?d @ ?r" by (rule json_marker_longest(2) [OF True])
    have "longest_marker ?d (?d @ ?r)" using json_marker_longest(1) [OF True] dec by simp
    moreover have "fences_deleted ?r (re_sub_fences ?r)" using "2.IH"(1) [OF True] .
    ultimately have "fences_deleted (?d @ ?r) (re_sub_fences ?r)" by (rule delete_marker)
    moreover have "re_sub_fences ?s = re_sub_fences ?r" by (rule re_sub_json [OF True])
    ultimately show ?thesis using dec by (simp only:)
  next
    case False
    show ?thesis
    proof (cases "prefix ''```'' (dropWhile py_isspace ?s)")
      case True
      let ?d = "takeWhile py_isspace ?s @ ''```''"
      let ?r = "drop 3 (dropWhile py_isspace ?s)"
      have dec: "?s = ?d @ ?r" by (rule plain_marker_longest(2) [OF False True])
      have "longest_marker ?d (?d @ ?r)" using plain_marker_longest(1) [OF False True] dec by simp
      moreover have "fences_deleted ?r (re_sub_fences ?r)" using "2.IH"(2) [OF False True] .
      ultimately have "fences_deleted (?d @ ?r) (re_sub_fences ?r)" by (rule delete_marker)
      moreover have "re_sub_fences ?s = re_sub_fences ?r" by (rule re_sub_plain [OF False True])
      ultimately show ?thesis using dec by (simp only:)
    next
      case nop: False
      have "no_marker ?s" by (rule no_marker_here [OF False nop])
      moreover have "fences_deleted cs (re_sub_fences cs)" using "2.IH"(3) [OF False nop] .
      ultimately have "fences_deleted ?s (c # re_sub_fences cs)" by (rule keep_char)
      moreover have "re_sub_fences ?s = c # re_sub_fences cs" by (rule re_sub_keep [OF False nop])
      ultimately show ?thesis by (simp only:)
    qed
  qed
qed

lemma fences_deleted_unique: "fences_deleted s t \<Longrightarrow> t = re_sub_fences s"
proof (induction rule: fences_deleted.induct)
  case nothing_left
  show ?case by simp
next
  case (delete_marker m r t)
  let ?s = "m @ r"
  have fm: "fence_marker m" "prefix m ?s" using delete_marker.hyps(1) by (auto simp: longest_marker_def)
  have ne: "?s \<noteq> []" using fm(1) by (auto simp: fence_marker_def)
  then obtain c cs where s: "?s = c # cs" by (cases ?s) auto
  have "re_sub_fences ?s = re_sub_fences r"
  proof (cases "prefix ''```json'' ?s")
    case True
    let ?d = "''```json'' @ takeWhile py_isspace (drop 7 ?s)"
    have "m = ?d" using longest_marker_unique [OF delete_marker.hyps(1) json_marker_longest(1) [OF True]] .
    moreover have "?s = ?d @ dropWhile py_isspace (drop 7 ?s)" by (rule json_marker_longest(2) [OF True])
    ultimately have "r = dropWhile py_isspace (drop 7 ?s)" by (metis same_append_eq)
    moreover have "re_sub_fences ?s = re_sub_fences (dropWhile py_isspace (drop 7 ?s))"
      by (rule re_sub_json [OF True])
    ultimately show ?thesis by (simp only:)
  next
    case False
    have pl: "prefix ''```'' (dropWhile py_isspace ?s)"
      using marker_prefix_cases [OF fm] False by blast
    let ?d = "takeWhile py_isspace ?s @ ''```''"
    have "m = ?d" using longest_marker_unique [OF delete_marker.hyps(1) plain_marker_longest(1) [OF False pl]] .
    moreover have "?s = ?d @ drop 3 (dropWhile py_isspace ?s)" by (rule plain_marker_longest(2) [OF False pl])
    ultimately have "r = drop 3 (dropWhile py_isspace ?s)" by (metis same_append_eq)
    moreover have "re_sub_fences ?s = re_sub_fences (drop 3 (dropWhile py_isspace ?s))"
      by (rule re_sub_plain [OF False pl])
    ultimately show ?thesis by (simp only:)
  qed
  then show ?case using delete_marker.IH by (simp only:)
next
  case (keep_char c r t)
  have a: "\<not> prefix ''```json'' (c # r)"
  proof
    assume p: "prefix ''```json'' (c # r)"
    from json_marker_longest(1) [OF p] keep_char.hyps(1) show False
      by (auto simp: longest_marker_def no_marker_def)
  qed
  have b: "\<not> prefix ''```'' (dropWhile py_isspace (c # r))"
  proof
    assume p: "prefix ''```'' (dropWhile py_isspace (c # r))"
    from plain_marker_longest(1) [OF a p] keep_char.hyps(1) show False
      by (auto simp: longest_marker_def no_marker_def)
  qed
  show ?case using re_sub_keep [OF a b] keep_char.IH by (simp only:)
qed

lemma fences_deleted_iff: "fences_deleted s t \<longleftrightarrow> t = re_sub_fences s"
  using fences_deleted_unique re_sub_fences_deletes by blast

text \<open>
  Two cases in closed form: a text without a backtick is left as it is, and a block between
  \<^verbatim>\<open>```json\<close> and \<^verbatim>\<open>```\<close> is reduced to its content without the surrounding
  whitespace.
\<close>

lemma no_backtick_no_match:
  assumes "CHR 0x60 \<notin> set s"
  shows "\<not> prefix ''```json'' s" and "\<not> prefix ''```'' (dropWhile py_isspace s)"
proof -
  show "\<not> prefix ''```json'' s" using assms by (auto simp: prefix_def)
  have "set (dropWhile py_isspace s) \<subseteq> set s" by (rule set_dropWhileD [THEN subsetI]) 
  then have "CHR 0x60 \<notin> set (dropWhile py_isspace s)" using assms by blast
  then show "\<not> prefix ''```'' (dropWhile py_isspace s)" by (auto simp: prefix_def)
qed

lemma no_backtick_unchanged: "CHR 0x60 \<notin> set s \<Longrightarrow> re_sub_fences s = s"
proof (induction s)
  case Nil
  show ?case by simp
next
  case (Cons c cs)
  have "re_sub_fences (c # cs) = c # re_sub_fences cs"
    by (rule re_sub_keep [OF no_backtick_no_match [OF Cons.prems]])
  then show ?case using Cons by simp
qed

lemma trailing_fence_deleted:
  "CHR 0x60 \<notin> set b \<Longrightarrow> re_sub_fences (b @ ''```'') = rev (dropWhile py_isspace (rev b))"
proof (induction b)
  case Nil
  have "re_sub_fences ''```'' = re_sub_fences (drop 3 (dropWhile py_isspace ''```''))"
    by (rule re_sub_plain) (simp_all add: py_isspace_def)
  then show ?case by (simp add: py_isspace_def)
next
  case (Cons c b)
  have nb: "CHR 0x60 \<notin> set b" "c \<noteq> CHR 0x60" using Cons.prems by auto
  have IH: "re_sub_fences (b @ ''```'') = rev (dropWhile py_isspace (rev b))"
    using Cons.IH nb(1) by simp
  have nj: "\<not> prefix ''```json'' ((c # b) @ ''```'')" using nb(2) by simp
  show ?case
  proof (cases "\<forall>x\<in>set (c # b). py_isspace x")
    case True
    then have dw: "dropWhile py_isspace ((c # b) @ ''```'') = ''```''"
      using backtick_not_space by (simp add: dropWhile_append3)
    have "re_sub_fences ((c # b) @ ''```'') = re_sub_fences (drop 3 (dropWhile py_isspace ((c # b) @ ''```'')))"
      by (rule re_sub_plain [OF nj]) (simp only: dw prefix_order.refl)
    also have "\<dots> = []" by (simp only: dw) simp
    also have "[] = rev (dropWhile py_isspace (rev (c # b)))"
      using True by (simp add: dropWhile_eq_Nil_conv)
    finally show ?thesis .
  next
    case False
    then obtain x where x: "x \<in> set (c # b)" "\<not> py_isspace x" by blast
    have "dropWhile py_isspace ((c # b) @ ''```'') = dropWhile py_isspace (c # b) @ ''```''"
      using x by (metis dropWhile_append1)
    moreover have "dropWhile py_isspace (c # b) \<noteq> []" using x by (simp add: dropWhile_eq_Nil_conv) blast
    moreover have "hd (dropWhile py_isspace (c # b)) \<noteq> CHR 0x60"
      using Cons.prems \<open>dropWhile py_isspace (c # b) \<noteq> []\<close>
      by (metis hd_in_set set_dropWhileD)
    ultimately have np: "\<not> prefix ''```'' (dropWhile py_isspace ((c # b) @ ''```''))"
      by (cases "dropWhile py_isspace (c # b)") auto
    have "re_sub_fences ((c # b) @ ''```'') = c # re_sub_fences (b @ ''```'')"
      using re_sub_keep [of c "b @ ''```''"] nj np by simp
    also have "\<dots> = c # rev (dropWhile py_isspace (rev b))" using IH by simp
    also have "\<dots> = rev (dropWhile py_isspace (rev (c # b)))"
    proof (cases "\<forall>y\<in>set b. py_isspace y")
      case True
      then have nc: "\<not> py_isspace c" using x by auto
      have "dropWhile py_isspace (rev b) = []" using True by (simp add: dropWhile_eq_Nil_conv)
      moreover have "dropWhile py_isspace (rev b @ [c]) = dropWhile py_isspace [c]"
        by (rule dropWhile_append2) (use True in auto)
      moreover have "dropWhile py_isspace [c] = [c]" using nc by simp
      ultimately show ?thesis by simp
    next
      case False
      then obtain y where "y \<in> set (rev b)" "\<not> py_isspace y" by auto
      then have "dropWhile py_isspace (rev b @ [c]) = dropWhile py_isspace (rev b) @ [c]"
        by (rule dropWhile_append1)
      then show ?thesis by simp
    qed
    finally show ?thesis .
  qed
qed

lemma fenced_block_cleaned:
  assumes "CHR 0x60 \<notin> set body"
  shows "re_sub_fences (''```json'' @ body @ ''```'') = py_strip body"
proof -
  have "re_sub_fences (''```json'' @ body @ ''```'') =
        re_sub_fences (dropWhile py_isspace (drop 7 (''```json'' @ body @ ''```'')))"
    by (rule re_sub_json) simp
  also have "drop 7 (''```json'' @ body @ ''```'') = body @ ''```''" by simp
  also have "dropWhile py_isspace (body @ ''```'') = dropWhile py_isspace body @ ''```''"
    using backtick_not_space by (induction body) auto
  also have "re_sub_fences (dropWhile py_isspace body @ ''```'') =
        rev (dropWhile py_isspace (rev (dropWhile py_isspace body)))"
    by (rule trailing_fence_deleted) (use assms set_dropWhileD in fastforce)
  finally show ?thesis by (simp add: py_strip_def)
qed

subsection \<open>Balanced objects\<close>

text \<open>
  A text that is one balanced object, followed by anything and preceded by a text without
  \<^verbatim>\<open>{\<close>, is the first balanced object of the whole.
\<close>

lemma close_braces_append:
  "close_braces d xs = Some ys \<Longrightarrow> close_braces d (xs @ r) = Some ys"
  "in_string d xs = Some ys \<Longrightarrow> in_string d (xs @ r) = Some ys"
  "escaped d xs = Some ys \<Longrightarrow> escaped d (xs @ r) = Some ys"
  by (induction d xs and d xs and d xs arbitrary: ys and ys and ys
        rule: close_braces_in_string_escaped.induct)
     (auto split: if_splits)

lemma first_object_skip:
  "CHR ''{'' \<notin> set before \<Longrightarrow> first_object (before @ s) = first_object s"
  by (induction before) auto

lemma first_object_found:
  assumes "one_object m" and "CHR ''{'' \<notin> set before"
  shows "first_object (before @ m @ rest) = Some m"
proof -
  from assms(1) obtain cs where m: "m = CHR ''{'' # cs" and cs: "close_braces 1 cs = Some cs"
    by (cases m) auto
  have "close_braces 1 (cs @ rest) = Some cs" by (rule close_braces_append(1) [OF cs])
  then have "first_object (m @ rest) = Some m" using m by simp
  then show ?thesis using first_object_skip [OF assms(2)] by simp
qed

subsection \<open>The callers of the gateway\<close>

text \<open>
  What \<^verbatim>\<open>scan_food\<close> and \<^verbatim>\<open>diet_plan\<close> return once the gateway's answer has
  candidates and its first text is a string.
\<close>

lemma scan_food_text:
  assumes "no_candidates data = Inr False" and "first_text data = Inr (JStr text)"
  shows "scan_food loads (Inr data) =
     (case re_search (py_strip (re_sub_fences text)) of
        Some m \<Rightarrow>
          (case loads m of
             Inr j \<Rightarrow> Jsonify j 200
           | Inl (JSONDecodeError e) \<Rightarrow>
               Jsonify (error_raw_body ''AI returned invalid JSON structure'' (JStr text)) 500
           | Inl e \<Rightarrow> Jsonify_error ''Server Error: '' e 500)
      | None \<Rightarrow> Jsonify (error_raw_body ''AI response did not contain JSON'' (JStr text)) 500)"
  using assms
  by (simp add: scan_food_def scan_food_try_def and_then_def split: option.splits sum.splits py_exc.splits)

lemma diet_plan_text:
  assumes "no_candidates res_data = Inr False" and "first_text res_data = Inr (JStr text)"
  shows "diet_plan loads (Inr res_data) =
     (case re_search (py_strip (re_sub_fences text)) of
        Some m \<Rightarrow>
          (case loads m of
             Inr j \<Rightarrow> Jsonify j 200
           | Inl e \<Rightarrow> Jsonify_error ''AI Plan failed: '' e 500)
      | None \<Rightarrow> Jsonify (error_raw_body ''AI response did not contain JSON'' (JStr text)) 500)"
  using assms
  by (simp add: diet_plan_def diet_plan_try_def and_then_def split: option.splits sum.splits)

lemmas ev3 = scan_food_def scan_food_try_def diet_plan_def diet_plan_try_def chat_def chat_try_def
  and_then_def no_candidates_def first_text_def answer_def canned_loads_def py_strip_def
  py_isspace_def error_body_def error_raw_body_def

text \<open>
  C6. The cleaned text is the input with its fence markers deleted, wherever they stand,
  and then stripped of surrounding whitespace. The span the search returns is the greedy
  span of that text, from its first \<^verbatim>\<open>{\<close> to its last \<^verbatim>\<open>}\<close>; \<^verbatim>\<open>scan_food\<close> and
  \<^verbatim>\<open>diet_plan\<close> answer 200 with a payload exactly when that span exists and
  \<^verbatim>\<open>json.loads\<close> returns the payload for it.
\<close>

theorem span_is_greedy:
  "re_search s = greedy_span s \<and>
   (fences_deleted text t \<longleftrightarrow> t = re_sub_fences text) \<and>
   (CHR 0x60 \<notin> set body \<longrightarrow>
      re_sub_fences body = body \<and>
      re_sub_fences (''```json'' @ body @ ''```'') = py_strip body) \<and>
   (fences_deleted text t \<and> no_candidates data = Inr False \<and>
    first_text data = Inr (JStr text) \<longrightarrow>
      (scan_food loads (Inr data) = Jsonify payload 200 \<longleftrightarrow>
         (\<exists>m. greedy_span (py_strip t) = Some m \<and> loads m = Inr payload)) \<and>
      (diet_plan loads (Inr data) = Jsonify payload 200 \<longleftrightarrow>
         (\<exists>m. greedy_span (py_strip t) = Some m \<and> loads m = Inr payload)))"
proof -
  have a: "re_search s = greedy_span s" by (rule re_search_greedy)
  have p: "fences_deleted text t \<longleftrightarrow> t = re_sub_fences text" by (rule fences_deleted_iff)
  have b: "scan_food loads (Inr data) = Jsonify payload 200 \<longleftrightarrow>
         (\<exists>m. greedy_span (py_strip (re_sub_fences text)) = Some m \<and> loads m = Inr payload)"
    if "no_candidates data = Inr False" "first_text data = Inr (JStr text)"
    unfolding scan_food_text [OF that] re_search_greedy
    by (auto simp: error_raw_body_def split: option.splits sum.splits py_exc.splits)
  have c: "diet_plan loads (Inr data) = Jsonify payload 200 \<longleftrightarrow>
         (\<exists>m. greedy_span (py_strip (re_sub_fences text)) = Some m \<and> loads m = Inr payload)"
    if "no_candidates data = Inr False" "first_text data = Inr (JStr text)"
    unfolding diet_plan_text [OF that] re_search_greedy
    by (auto simp: error_raw_body_def split: option.splits sum.splits)
  have f: "CHR 0x60 \<notin> set body \<longrightarrow>
      re_sub_fences body = body \<and>
      re_sub_fences (''```json'' @ body @ ''```'') = py_strip body"
    using no_backtick_unchanged fenced_block_cleaned by blast
  show ?thesis using a b c f unfolding p by blast
qed

theorem span_is_greedy_witness:
  \<open>re_search ''Sure! {"a": {"b": 1}} and } more'' = Some ''{"a": {"b": 1}} and }'' \<and>
   greedy_span ''Sure! {"a": {"b": 1}} and } more'' = Some ''{"a": {"b": 1}} and }'' \<and>
   fences_deleted ''```json\<newline>{"c": "```"}\<newline>```'' ''{"c": ""}'' \<and>
   re_sub_fences (''```json'' @ ''\<newline>{"a": 1}\<newline>'' @ ''```'') = ''{"a": 1}'' \<and>
   scan_food (canned_loads [(''{"c": ""}'', JObj [(''c'', JStr [])])] ''Expecting value'')
       (Inr (answer ''```json\<newline>{"c": "```"}\<newline>```'')) =
     Jsonify (JObj [(''c'', JStr [])]) 200 \<and>
   diet_plan (canned_loads [(''{"c": ""}'', JObj [(''c'', JStr [])])] ''Expecting value'')
       (Inr (answer ''```json\<newline>{"c": "```"}\<newline>```'')) =
     Jsonify (JObj [(''c'', JStr [])]) 200\<close>
proof -
  let ?loads = \<open>canned_loads [(''{"c": ""}'', JObj [(''c'', JStr [])])] ''Expecting value''\<close>
  let ?text = \<open>''```json\<newline>{"c": "```"}\<newline>```''\<close>
  let ?t = \<open>''{"c": ""}''\<close>
  have nc: "no_candidates (answer ?text) = Inr False"
    by (simp add: ev3)
  have ft: "first_text (answer ?text) = Inr (JStr ?text)"
    by (simp add: ev3)
  have cl: \<open>?t = re_sub_fences ?text\<close>
    by (simp add: py_isspace_def)
  have g: \<open>greedy_span (py_strip ?t) = Some ''{"c": ""}''\<close>
    by (simp add: greedy_span_def first_open_def last_close_def py_strip_def py_isspace_def)
  have l: \<open>?loads ''{"c": ""}'' = Inr (JObj [(''c'', JStr [])])\<close>
    by (simp add: canned_loads_def)
  have r: \<open>re_search ''Sure! {"a": {"b": 1}} and } more'' = Some ''{"a": {"b": 1}} and }''\<close>
    by simp
  have nb: \<open>CHR 0x60 \<notin> set ''\<newline>{"a": 1}\<newline>''\<close>
    by simp
  have ps: \<open>py_strip ''\<newline>{"a": 1}\<newline>'' = ''{"a": 1}''\<close>
    by (simp add: py_strip_def py_isspace_def)
  from span_is_greedy
    [of \<open>''Sure! {"a": {"b": 1}} and } more''\<close> ?text ?t \<open>''\<newline>{"a": 1}\<newline>''\<close>
      "answer ?text" ?loads "JObj [(''c'', JStr [])]"]
  have inst:
    \<open>re_sub_fences (''```json'' @ ''\<newline>{"a": 1}\<newline>'' @ ''```'') =
       py_strip ''\<newline>{"a": 1}\<newline>''\<close>
    \<open>fences_deleted ?text ?t \<longleftrightarrow> ?t = re_sub_fences ?text\<close>
    \<open>scan_food ?loads (Inr (answer ?text)) = Jsonify (JObj [(''c'', JStr [])]) 200 \<longleftrightarrow>
       (\<exists>m. greedy_span (py_strip ?t) = Some m \<and> ?loads m = Inr (JObj [(''c'', JStr [])]))\<close>
    \<open>diet_plan ?loads (Inr (answer ?text)) = Jsonify (JObj [(''c'', JStr [])]) 200 \<longleftrightarrow>
       (\<exists>m. greedy_span (py_strip ?t) = Some m \<and> ?loads m = Inr (JObj [(''c'', JStr [])]))\<close>
    using nb nc ft cl by blast+
  have fd: \<open>fences_deleted ?text ?t\<close> using inst(2) cl by blast
  have ex: \<open>\<exists>m. greedy_span (py_strip ?t) = Some m \<and> ?loads m = Inr (JObj [(''c'', JStr [])])\<close>
    using g l by blast
  show ?thesis
    using r re_search_greedy [of \<open>''Sure! {"a": {"b": 1}} and } more''\<close>] fd inst(1) ps inst(3,4) ex
    by (simp only: simp_thms)
qed

text \<open>
  C7, as the code has it. When extraction succeeds, the payload is what \<^verbatim>\<open>json.loads\<close>
  returned for the greedy span of the cleaned text. Given that \<^verbatim>\<open>json.loads\<close> accepts a
  text from \<^verbatim>\<open>{\<close> to \<^verbatim>\<open>}\<close> only when it is one balanced object, that span is the
  first balanced object of the cleaned text; what precedes and what follows it is left out.
\<close>

theorem payload_is_first_object:
  assumes "fences_deleted text t"
    and "no_candidates data = Inr False"
    and "first_text data = Inr (JStr text)"
    and "\<forall>m p. loads m = Inr p \<and> hd m = CHR ''{'' \<and> last m = CHR ''}'' \<longrightarrow> one_object m"
    and "scan_food loads (Inr data) = Jsonify payload 200 \<or>
         diet_plan loads (Inr data) = Jsonify payload 200"
  shows "\<exists>before m rest.
           py_strip t = before @ m @ rest \<and>
           CHR ''{'' \<notin> set before \<and> CHR ''}'' \<notin> set rest \<and>
           hd m = CHR ''{'' \<and> last m = CHR ''}'' \<and>
           greedy_span (py_strip t) = Some m \<and>
           first_object (py_strip t) = Some m \<and>
           loads m = Inr payload"
proof -
  have t: "t = re_sub_fences text" using assms(1) by (simp only: fences_deleted_iff)
  have "\<exists>m. re_search (py_strip t) = Some m \<and> loads m = Inr payload"
    using assms(5)
    unfolding scan_food_text [OF assms(2,3)] diet_plan_text [OF assms(2,3)] t
    by (auto simp: error_raw_body_def split: option.splits sum.splits py_exc.splits)
  then obtain m where m: "re_search (py_strip t) = Some m" "loads m = Inr payload"
    by blast
  from re_search_shape [OF m(1)] obtain before rest where
    sh: "py_strip t = before @ m @ rest" "CHR ''{'' \<notin> set before" "CHR ''}'' \<notin> set rest"
        "hd m = CHR ''{''" "last m = CHR ''}''"
    by blast
  have "one_object m" using assms(4) m(2) sh(4,5) by blast
  then have "first_object (before @ m @ rest) = Some m" using sh(2) by (rule first_object_found)
  then have fo: "first_object (py_strip t) = Some m" using sh(1) by simp
  have gs: "greedy_span (py_strip t) = Some m" using m(1) by (simp only: re_search_greedy)
  show ?thesis using sh fo gs m(2) by blast
qed

theorem payload_is_first_object_witness:
  \<open>\<exists>before m rest.
      py_strip ''Plan: {"tip": "close with }"} Enjoy!'' = before @ m @ rest \<and>
      CHR ''{'' \<notin> set before \<and> CHR ''}'' \<notin> set rest \<and>
      hd m = CHR ''{'' \<and> last m = CHR ''}'' \<and>
      greedy_span (py_strip ''Plan: {"tip": "close with }"} Enjoy!'') = Some m \<and>
      first_object (py_strip ''Plan: {"tip": "close with }"} Enjoy!'') = Some m \<and>
      canned_loads [(''{"tip": "close with }"}'', JObj [(''tip'', JStr ''close with }'')])]
        ''Expecting value'' m = Inr (JObj [(''tip'', JStr ''close with }'')])\<close>
proof -
  let ?loads = \<open>canned_loads [(''{"tip": "close with }"}'', JObj [(''tip'', JStr ''close with }'')])]
        ''Expecting value''\<close>
  let ?text = \<open>''```json\<newline>Plan: {"tip": "close with }"} Enjoy!\<newline>```''\<close>
  have fd: \<open>fences_deleted ?text ''Plan: {"tip": "close with }"} Enjoy!''\<close>
    by (simp add: fences_deleted_iff py_isspace_def)
  have nc: "no_candidates (answer ?text) = Inr False"
    by (simp add: ev3)
  have ft: "first_text (answer ?text) = Inr (JStr ?text)"
    by (simp add: ev3)
  have lib: "\<forall>m p. ?loads m = Inr p \<and> hd m = CHR ''{'' \<and> last m = CHR ''}'' \<longrightarrow> one_object m"
    by (auto simp: canned_loads_def split: if_splits)
  have ok: "scan_food ?loads (Inr (answer ?text)) = Jsonify (JObj [(''tip'', JStr ''close with }'')]) 200"
    by (simp add: ev3)
  show ?thesis
    by (rule payload_is_first_object [OF fd nc ft lib]) (simp add: ok)
qed

text \<open>
  The payload need not be valid JSON: \<^verbatim>\<open>json.loads\<close> accepts \<^verbatim>\<open>NaN\<close>, and the
  route answers 200 with it.
\<close>

theorem payload_not_valid_json:
  \<open>scan_food
      (canned_loads [(''{"a": NaN}'', JObj [(''a'', JNaN)])]
         ''Expecting value: line 1 column 1 (char 0)'')
      (Inr (answer ''```json\<newline>{"a": NaN}\<newline>```'')) =
     Jsonify (JObj [(''a'', JNaN)]) 200 \<and>
   \<not> json_value (JObj [(''a'', JNaN)])\<close>
  by (simp add: ev3)

text \<open>
  C8, as the code has it. Without a span both routes answer with the error
  \<^verbatim>\<open>AI response did not contain JSON\<close> and the raw text. With a span that
  \<^verbatim>\<open>json.loads\<close> rejects, \<^verbatim>\<open>scan_food\<close> answers with the error
  \<^verbatim>\<open>AI returned invalid JSON structure\<close> and the raw text; the span is not in the answer.
\<close>

theorem extraction_errors:
  assumes "no_candidates data = Inr False"
    and "first_text data = Inr (JStr text)"
  shows "(greedy_span (py_strip (re_sub_fences text)) = None \<longrightarrow>
            scan_food loads (Inr data) =
              Jsonify (JObj [(''error'', JStr ''AI response did not contain JSON''),
                             (''raw'', JStr text)]) 500 \<and>
            diet_plan loads (Inr data) =
              Jsonify (JObj [(''error'', JStr ''AI response did not contain JSON''),
                             (''raw'', JStr text)]) 500)
       \<and> (greedy_span (py_strip (re_sub_fences text)) = Some m \<and>
            loads m = Inl (JSONDecodeError e) \<longrightarrow>
            scan_food loads (Inr data) =
              Jsonify (JObj [(''error'', JStr ''AI returned invalid JSON structure''),
                             (''raw'', JStr text)]) 500)"
  unfolding scan_food_text [OF assms] diet_plan_text [OF assms] re_search_greedy
  by (simp add: error_raw_body_def)

theorem extraction_errors_witness:
  \<open>scan_food (canned_loads [] ''Expecting value: line 1 column 1 (char 0)'')
       (Inr (answer ''no braces here'')) =
     Jsonify (JObj [(''error'', JStr ''AI response did not contain JSON''),
                    (''raw'', JStr ''no braces here'')]) 500 \<and>
   diet_plan (canned_loads [] ''Expecting value: line 1 column 1 (char 0)'')
       (Inr (answer ''no braces here'')) =
     Jsonify (JObj [(''error'', JStr ''AI response did not contain JSON''),
                    (''raw'', JStr ''no braces here'')]) 500 \<and>
   scan_food
       (canned_loads []
          ''Expecting property name enclosed in double quotes: line 1 column 2 (char 1)'')
       (Inr (answer ''```json\<newline>{bad json}\<newline>```'')) =
     Jsonify (JObj [(''error'', JStr ''AI returned invalid JSON structure''),
                    (''raw'', JStr ''```json\<newline>{bad json}\<newline>```'')]) 500\<close>
proof -
  let ?l1 = \<open>canned_loads [] ''Expecting value: line 1 column 1 (char 0)''\<close>
  let ?l2 = \<open>canned_loads []
          ''Expecting property name enclosed in double quotes: line 1 column 2 (char 1)''\<close>
  let ?t1 = \<open>''no braces here''\<close>
  let ?t2 = \<open>''```json\<newline>{bad json}\<newline>```''\<close>
  have nc1: "no_candidates (answer ?t1) = Inr False" by (simp add: ev3)
  have ft1: "first_text (answer ?t1) = Inr (JStr ?t1)" by (simp add: ev3)
  have nc2: "no_candidates (answer ?t2) = Inr False" by (simp add: ev3)
  have ft2: "first_text (answer ?t2) = Inr (JStr ?t2)" by (simp add: ev3)
  have g1: "greedy_span (py_strip (re_sub_fences ?t1)) = None"
    by (simp add: ev3 greedy_span_def first_open_def last_close_def)
  have g2: "greedy_span (py_strip (re_sub_fences ?t2)) = Some ''{bad json}''"
    by (simp add: ev3 greedy_span_def first_open_def last_close_def)
  have l2: "?l2 ''{bad json}'' =
      Inl (JSONDecodeError
        ''Expecting property name enclosed in double quotes: line 1 column 2 (char 1)'')"
    by (simp add: canned_loads_def)
  from extraction_errors [OF nc1 ft1, where loads = ?l1]
    extraction_errors [OF nc2 ft2, where loads = ?l2 and m = "''{bad json}''"]
  show ?thesis using g1 g2 l2 by simp
qed

text \<open>
  The fenced text \<^verbatim>\<open>{bad json\<close> has no closing brace, hence no span, and gets the
  first error, not the second. With a span that does not parse, \<^verbatim>\<open>diet_plan\<close> has no
  inner \<^verbatim>\<open>try\<close>: its handler answers with the exception alone, without the raw text.
\<close>

theorem fenced_bad_json_has_no_span:
  \<open>scan_food
       (canned_loads [] ''Expecting property name enclosed in double quotes: line 1 column 2 (char 1)'')
       (Inr (answer ''```json\<newline>{bad json\<newline>```'')) =
     Jsonify (JObj [(''error'', JStr ''AI response did not contain JSON''),
                    (''raw'', JStr ''```json\<newline>{bad json\<newline>```'')]) 500 \<and>
   diet_plan
       (canned_loads [] ''Expecting property name enclosed in double quotes: line 1 column 2 (char 1)'')
       (Inr (answer ''```json\<newline>{bad json}\<newline>```'')) =
     Jsonify_error ''AI Plan failed: ''
       (JSONDecodeError
          ''Expecting property name enclosed in double quotes: line 1 column 2 (char 1)'') 500\<close>
  by (simp add: ev3)

text \<open>
  C9. A body returned by the gateway (the body of a 200 answer) that has no
  \<^verbatim>\<open>candidates\<close> field, or an empty \<^verbatim>\<open>candidates\<close> array, makes each of the three
  routes answer 500 with its own error message.
\<close>

theorem missing_candidates_fail:
  assumes "map_of kvs ''candidates'' = None \<or> map_of kvs ''candidates'' = Some (JArr [])"
  shows "scan_food loads (Inr (JObj kvs)) =
           Jsonify (JObj [(''error'', JStr ''No results from AI. Safety filters might be active.'')]) 500
       \<and> diet_plan loads (Inr (JObj kvs)) =
           Jsonify (JObj [(''error'', JStr ''AI could not generate a plan.'')]) 500
       \<and> chat (Inr (JObj kvs)) =
           Jsonify (JObj [(''error'', JStr ''Bella is unable to respond right now.'')]) 500"
proof -
  have "no_candidates (JObj kvs) = Inr True"
    using assms by (auto simp: no_candidates_def and_then_def)
  then show ?thesis
    by (simp add: scan_food_def scan_food_try_def diet_plan_def diet_plan_try_def chat_def
          chat_try_def and_then_def error_body_def)
qed

theorem missing_candidates_fail_witness:
  "chat (Inr (JObj [(''promptFeedback'', JObj [(''blockReason'', JStr ''SAFETY'')])])) =
     Jsonify (JObj [(''error'', JStr ''Bella is unable to respond right now.'')]) 500
   \<and> scan_food (canned_loads [] ''Expecting value'') (Inr (JObj [(''candidates'', JArr [])])) =
     Jsonify (JObj [(''error'', JStr ''No results from AI. Safety filters might be active.'')]) 500
   \<and> diet_plan (canned_loads [] ''Expecting value'') (Inr (JObj [(''candidates'', JArr [])])) =
     Jsonify (JObj [(''error'', JStr ''AI could not generate a plan.'')]) 500"
  using missing_candidates_fail
      [of "[(''promptFeedback'', JObj [(''blockReason'', JStr ''SAFETY'')])]"
          "canned_loads [] ''Expecting value''"]
    missing_candidates_fail [of "[(''candidates'', JArr [])]" "canned_loads [] ''Expecting value''"]
  by simp

end
